theory Spec2Isabelle
  imports Complex_Main "HOL-Library.Multiset" "HOL-Library.Word"
begin

section \<open>Conventions\<close>

text \<open>
  The repository computes on \<^verbatim>\<open>float\<close> and \<^verbatim>\<open>double\<close>. A floating-point quantity is
  a \<^typ>\<open>real\<close> and its arithmetic is exact: rounding, infinities and NaN are not modelled,
  with one exception, the constructor of a tag, where a \<^verbatim>\<open>double\<close> is stored into a
  \<^verbatim>\<open>float\<close> and compared with it afterwards; there the conversion is written out.
  A \<^verbatim>\<open>cv::Point2f\<close> is a pair of coordinates. A \<^verbatim>\<open>std::shared_ptr\<close> is an address, an
  element of a type of pointers, and equality of pointers is equality of addresses; the
  object behind a pointer is read through a store, a function from pointers to values.
\<close>

type_synonym Point2f = "real \<times> real"

section \<open>The program\<close>

subsection \<open>Tag: the constructor (tag.cpp)\<close>

text \<open>
  Modelled from the spec: the macro \<^verbatim>\<open>RMVL_Error_\<close> is defined in rmvl/core/util.hpp, which
  is not among the sources at hand. An invalid argument fails fast with a descriptive error
  and is fatal to the object under construction, so the macro is a raise: the constructor
  returns the error, with the status code it was given and the formatted message, and no
  object.
\<close>

datatype rmvl_error = RMVL_StsBadArg string

text \<open>The \<^verbatim>\<open>%zu\<close> conversion of the message: a size in decimal digits.\<close>

function decimal :: "nat \<Rightarrow> string" where
  "decimal n = (if n < 10 then [''0123456789'' ! n]
                else decimal (n div 10) @ [''0123456789'' ! (n mod 10)])"
  by pat_completeness auto
termination
  by (relation "measure id") auto

declare decimal.simps [simp del]

definition corners_size_message :: "nat \<Rightarrow> string" where
  "corners_size_message n =
     ''the size of the argument '' @ [CHR 0x22] @ ''corners'' @ [CHR 0x22]
       @ '' should be 4, but now it is '' @ decimal n @ ''.''"

text \<open>
  \<^verbatim>\<open>std::array<cv::Point2f, 4>\<close>, the type of the argument \<^verbatim>\<open>corners\<close>: four points, no
  more and no fewer. Its elements from \<^verbatim>\<open>begin()\<close> to \<^verbatim>\<open>end()\<close>; its \<^verbatim>\<open>size()\<close> is
  their number.
\<close>

type_synonym corners4 = "Point2f \<times> Point2f \<times> Point2f \<times> Point2f"

definition elements :: "corners4 \<Rightarrow> Point2f list" where
  "elements corners = (case corners of (c0, c1, c2, c3) \<Rightarrow> [c0, c1, c2, c3])"

text \<open>
  The members the constructor writes. The tag type is an enumeration of tag.h, which is not
  among the sources: it is the type parameter \<^typ>\<open>'ty\<close>.
\<close>

record 'ty Tag =
  tag_corners :: "Point2f list"
  tag_type :: 'ty
  tag_center :: Point2f
  tag_width :: real
  tag_height :: real

text \<open>
  \<^verbatim>\<open>Tag::Tag(const std::array<cv::Point2f, 4> &corners, TagType type)\<close>, statement by
  statement. The coordinates of a point and the members \<^verbatim>\<open>_width\<close> and \<^verbatim>\<open>_height\<close> are
  of type \<^verbatim>\<open>float\<close>, whereas \<^verbatim>\<open>length1\<close> and \<^verbatim>\<open>length2\<close> are of type \<^verbatim>\<open>double\<close>: the two
  assignments to the members convert a \<^verbatim>\<open>double\<close> to a \<^verbatim>\<open>float\<close>, and the comparison
  \<^verbatim>\<open>_width == length1\<close> compares the converted width with the length that was not
  converted. That conversion, the rounding of a value to a \<^verbatim>\<open>float\<close>, is the parameter
  \<open>narrow\<close>; it is also applied to every sum and quotient of \<^verbatim>\<open>float\<close>s in the computation
  of the centre. A \<^verbatim>\<open>double\<close> is a real number. \<^verbatim>\<open>getDistance\<close> (rmvl/core/math.hpp) is
  not among the sources: it is a parameter, and it returns a \<^verbatim>\<open>double\<close>.
\<close>

definition Tag_ctor ::
  "(real \<Rightarrow> real) \<Rightarrow> (Point2f \<Rightarrow> Point2f \<Rightarrow> real) \<Rightarrow> corners4 \<Rightarrow> 'ty \<Rightarrow> rmvl_error + 'ty Tag" where
  "Tag_ctor narrow getDistance corners type =
     (let corners_size = length (elements corners) in
      if corners_size \<noteq> 4 then Inl (RMVL_StsBadArg (corners_size_message corners_size))
      else
        let center = foldl (\<lambda>c corner. (narrow (fst c + fst corner), narrow (snd c + snd corner)))
                       (0, 0) (elements corners);
            center = (narrow (fst center / real corners_size), narrow (snd center / real corners_size));
            length1 = getDistance (elements corners ! 0) (elements corners ! 1);
            length2 = getDistance (elements corners ! 1) (elements corners ! 2);
            width = narrow (if length1 > length2 then length1 else length2);
            height = narrow (if width = length1 then length2 else length1)
        in Inr \<lparr>tag_corners = elements corners, tag_type = type, tag_center = center,
                 tag_width = width, tag_height = height\<rparr>)"

subsection \<open>DefaultCombo: clone (combo.cpp)\<close>

text \<open>
  Combos and features are heap objects reached through shared pointers, and cloning is
  about which objects are shared, so the heap is explicit: a map from addresses to features,
  a map from addresses to combos, and the next address an allocation returns. The fields of
  a feature are of no concern here: a feature is a value of the type parameter \<^typ>\<open>'f\<close>.
\<close>

type_synonym addr = nat

record 'ty DefaultCombo =
  c_features :: "addr list"
  c_height :: real
  c_width :: real
  c_center :: Point2f
  c_angle :: real
  c_corners :: "Point2f list"
  c_type :: 'ty
  c_tick :: real

record ('f, 'ty) heap =
  feature_at :: "addr \<rightharpoonup> 'f"
  combo_at :: "addr \<rightharpoonup> 'ty DefaultCombo"
  next_free :: addr

text \<open>A well-formed heap: every object lives below the next free address.\<close>

definition heap_ok :: "('f, 'ty) heap \<Rightarrow> bool" where
  "heap_ok h \<longleftrightarrow> (\<forall>a \<in> dom (feature_at h). a < next_free h) \<and> (\<forall>a \<in> dom (combo_at h). a < next_free h)"

text \<open>
  Modelled from the spec: \<^verbatim>\<open>feature::clone\<close> is a virtual function of the feature classes,
  whose sources are not at hand; cloning a combo deep-copies its features, so the clone of
  a feature is a newly allocated object with the same contents. A null pointer has no
  object to clone: the result is \<open>None\<close>.
\<close>

definition feature_clone :: "addr \<Rightarrow> ('f, 'ty) heap \<Rightarrow> (addr \<times> ('f, 'ty) heap) option" where
  "feature_clone p h =
     (case feature_at h p of
        None \<Rightarrow> None
      | Some f \<Rightarrow> Some (next_free h,
                         h\<lparr>feature_at := (feature_at h)(next_free h \<mapsto> f),
                           next_free := next_free h + 1\<rparr>))"

text \<open>\<^verbatim>\<open>std::make_shared<DefaultCombo>(*this)\<close>: a new combo object, copy of the given one.\<close>

definition make_shared_combo :: "'ty DefaultCombo \<Rightarrow> ('f, 'ty) heap \<Rightarrow> addr \<times> ('f, 'ty) heap" where
  "make_shared_combo c h =
     (next_free h, h\<lparr>combo_at := (combo_at h)(next_free h \<mapsto> c), next_free := next_free h + 1\<rparr>)"

text \<open>
  The loop \<^verbatim>\<open>for (i = 0; i < _features.size(); ++i) retval->_features[i] = _features[i]->clone();\<close>
  It reads the original through \<open>this\<close> and writes the copy through \<open>retval\<close>, both in the
  heap, at every round. Where the C++ would dereference a null pointer or index a vector
  out of range, the result is \<open>None\<close>.
\<close>

function clone_loop :: "addr \<Rightarrow> addr \<Rightarrow> nat \<Rightarrow> ('f, 'ty) heap \<Rightarrow> ('f, 'ty) heap option" where
  "clone_loop this retval i h =
     (case combo_at h this of
        None \<Rightarrow> None
      | Some c \<Rightarrow>
          if i < length (c_features c) then
            (case feature_clone (c_features c ! i) h of
               None \<Rightarrow> None
             | Some (q, h') \<Rightarrow>
                 (case combo_at h' retval of
                    None \<Rightarrow> None
                  | Some r \<Rightarrow>
                      if i < length (c_features r) then
                        clone_loop this retval (i + 1)
                          (h'\<lparr>combo_at := (combo_at h')(retval \<mapsto> r\<lparr>c_features := (c_features r)[i := q]\<rparr>)\<rparr>)
                      else None))
          else Some h)"
  by pat_completeness auto
termination
proof (relation "measure (\<lambda>(this, retval, i, h).
          case combo_at h this of None \<Rightarrow> 0 | Some c \<Rightarrow> length (c_features c) - i)")
  show "wf (measure (\<lambda>(this, retval, i, h).
          case combo_at h this of None \<Rightarrow> 0 | Some c \<Rightarrow> length (c_features c) - i))"
    by simp
next
  fix this retval :: addr and i :: nat and h h' :: "('f, 'ty) heap" and c r x q
  assume c: "combo_at h this = Some c" and i: "i < length (c_features c)"
    and fc: "feature_clone (c_features c ! i) h = Some x" and x: "(q, h') = x"
    and r: "combo_at h' retval = Some r" and ir: "i < length (c_features r)"
  from fc x have eq: "combo_at h' = combo_at h"
    by (auto simp: feature_clone_def split: option.splits)
  show "((this, retval, i + 1,
          h'\<lparr>combo_at := (combo_at h')(retval \<mapsto> r\<lparr>c_features := (c_features r)[i := q]\<rparr>)\<rparr>),
         (this, retval, i, h))
        \<in> measure (\<lambda>(this, retval, i, h).
            case combo_at h this of None \<Rightarrow> 0 | Some c \<Rightarrow> length (c_features c) - i)"
  proof (cases "this = retval")
    case True
    with c r eq have "r = c" by simp
    with True c i show ?thesis by simp
  next
    case False
    with c eq i show ?thesis by simp
  qed
qed

text \<open>\<^verbatim>\<open>combo::ptr DefaultCombo::clone(double tick)\<close>.\<close>

definition clone :: "addr \<Rightarrow> real \<Rightarrow> ('f, 'ty) heap \<Rightarrow> (addr \<times> ('f, 'ty) heap) option" where
  "clone this tick h =
     (case combo_at h this of
        None \<Rightarrow> None
      | Some c \<Rightarrow>
          let (retval, h) = make_shared_combo c h in
          (case clone_loop this retval 0 h of
             None \<Rightarrow> None
           | Some h \<Rightarrow>
               (case combo_at h retval of
                  None \<Rightarrow> None
                | Some r \<Rightarrow> Some (retval, h\<lparr>combo_at := (combo_at h)(retval \<mapsto> r\<lparr>c_tick := tick\<rparr>)\<rparr>))))"

subsection \<open>GyroDetector: features and combos of a frame (find.cpp)\<close>

text \<open>
  What the detector reads of a light blob, of an armor (a combo of two light blobs, its
  left one at index 0 and its right one at index 1) and of an image. The robot type is an
  enumeration that is not among the sources: the type parameter \<^typ>\<open>'ty\<close>.
\<close>

record LightBlob =
  blob_center :: Point2f
  blob_height :: real

record ('b, 'ty) Armor =
  at0 :: 'b
  at1 :: 'b
  getWidth :: real
  getError :: real
  getType :: 'ty

type_synonym Vec3b = "8 word \<times> 8 word \<times> 8 word"

record Mat =
  rows :: int
  cols :: int
  pixel :: "int \<Rightarrow> int \<Rightarrow> Vec3b"

text \<open>
  What find.cpp calls and does not define: OpenCV's \<^verbatim>\<open>findContours\<close> and
  \<^verbatim>\<open>contourArea\<close>, the parameter \<^verbatim>\<open>MIN_CONTOUR_AREA\<close>, \<^verbatim>\<open>LightBlob::make_feature\<close>
  (a null pointer is \<open>None\<close>), the store of the light blobs, \<^verbatim>\<open>std::sort\<close> with the
  comparator of \<^verbatim>\<open>findArmors\<close>, \<^verbatim>\<open>Armor::make_combo\<close> (with the gyro data and the tick
  of the frame fixed), \<^verbatim>\<open>Armor::isContainBlob\<close> and the enumerator
  \<^verbatim>\<open>RobotType::UNKNOWN\<close>. They are the fields of one record of parameters.
\<close>

record ('c, 'b, 'ty) GyroDetector_ext =
  findContours :: "Mat \<Rightarrow> 'c list"
  contourArea :: "'c \<Rightarrow> real"
  MIN_CONTOUR_AREA :: real
  make_feature :: "'c \<Rightarrow> 'b option"
  blob :: "'b \<Rightarrow> LightBlob"
  std_sort :: "'b list \<Rightarrow> 'b list"
  make_combo :: "'b \<Rightarrow> 'b \<Rightarrow> ('b, 'ty) Armor option"
  isContainBlob :: "'b \<Rightarrow> ('b, 'ty) Armor \<Rightarrow> bool"
  UNKNOWN :: 'ty

text \<open>\<^verbatim>\<open>p->getCenter().x\<close>.\<close>

definition center_x :: "('c, 'b, 'ty, 'z) GyroDetector_ext_scheme \<Rightarrow> 'b \<Rightarrow> real" where
  "center_x E p = fst (blob_center (blob E p))"

text \<open>
  The contract of \<^verbatim>\<open>std::sort\<close> with the comparator
  \<^verbatim>\<open>lhs->getCenter().x < rhs->getCenter().x\<close>: the result is a permutation of the input in
  ascending order of the horizontal centre. The order of equal elements is left open, as
  the C++ standard leaves it.
\<close>

definition std_sort_contract :: "('c, 'b, 'ty, 'z) GyroDetector_ext_scheme \<Rightarrow> 'b list \<Rightarrow> bool" where
  "std_sort_contract E xs =
     (mset (std_sort E xs) = mset xs \<and> sorted (map (center_x E) (std_sort E xs)))"

text \<open>\<^verbatim>\<open>GyroDetector::findLightBlobs\<close>: the loop over the contours, then the function.\<close>

fun findLightBlobs_loop ::
  "('c, 'b, 'ty, 'z) GyroDetector_ext_scheme \<Rightarrow> 'c list \<Rightarrow> 'b list \<Rightarrow> 'b list" where
  "findLightBlobs_loop E [] light_blobs = light_blobs"
| "findLightBlobs_loop E (contour # contours) light_blobs =
     (if contourArea E contour < MIN_CONTOUR_AREA E then findLightBlobs_loop E contours light_blobs
      else case make_feature E contour of
             None \<Rightarrow> findLightBlobs_loop E contours light_blobs
           | Some p_light \<Rightarrow> findLightBlobs_loop E contours (light_blobs @ [p_light]))"

definition findLightBlobs :: "('c, 'b, 'ty, 'z) GyroDetector_ext_scheme \<Rightarrow> Mat \<Rightarrow> 'b list" where
  "findLightBlobs E bin = findLightBlobs_loop E (findContours E bin) []"

text \<open>
  \<^verbatim>\<open>GyroDetector::eraseBrightBlobs\<close>. The conversion of a floating-point value to
  \<^verbatim>\<open>int\<close> truncates towards zero. The two coordinates of a sample are computed and
  clamped as the lambda does it, in the order of its statements; the brightness of the ten
  samples (\<open>i\<close> from \<open>-5\<close> to \<open>5\<close>, without \<open>0\<close>) is summed up. A read outside the
  image has no defined result in C++; here the pixels are a total function and the
  coordinates of the samples are examined on their own. The arithmetic is exact here and
  rounded in the C++: the brightness of a pixel can differ by one where the exact weighted
  sum is an integer (the pixel \<open>(0, 134, 102)\<close> has brightness 110 in \<^verbatim>\<open>double\<close>
  arithmetic and 111 here), and a coordinate too large for an \<^verbatim>\<open>int\<close> has no counterpart.
\<close>

definition trunc :: "real \<Rightarrow> int" where
  "trunc r = (if 0 \<le> r then \<lfloor>r\<rfloor> else \<lceil>r\<rceil>)"

definition sample_x :: "Mat \<Rightarrow> LightBlob \<Rightarrow> int \<Rightarrow> int" where
  "sample_x src b i =
     (let x = trunc (fst (blob_center b) - blob_height b * real_of_int i / 5);
          x = (if x > cols src then cols src - 1 else x);
          x = (if x < 0 then 1 else x)
      in x)"

definition sample_y :: "Mat \<Rightarrow> LightBlob \<Rightarrow> int" where
  "sample_y src b =
     (let y = trunc (snd (blob_center b));
          y = (if y < 0 then 1 else y);
          y = (if y > rows src then rows src - 1 else y)
      in y)"

definition brightness :: "Vec3b \<Rightarrow> int" where
  "brightness colors =
     (case colors of (c0, c1, c2) \<Rightarrow>
        trunc (0.1 * real (unat c0) + 0.6 * real (unat c1) + 0.3 * real (unat c2)))"

definition total_brightness :: "Mat \<Rightarrow> LightBlob \<Rightarrow> int" where
  "total_brightness src b =
     fold (\<lambda>i acc. if i = 0 then acc
                      else acc + brightness (pixel src (sample_y src b) (sample_x src b i)))
       [-5..5] 0"

definition eraseBrightBlobs ::
  "('c, 'b, 'ty, 'z) GyroDetector_ext_scheme \<Rightarrow> Mat \<Rightarrow> 'b list \<Rightarrow> 'b list" where
  "eraseBrightBlobs E src blobs =
     filter (\<lambda>p. \<not> (total_brightness src (blob E p) > 1100)) blobs"

text \<open>
  \<^verbatim>\<open>GyroDetector::findArmors\<close>: the loop over \<open>k\<close> that looks for a light blob inside
  the armor, the loop over \<open>j\<close>, the loop over \<open>i\<close>, and the function. The vector of light
  blobs is sorted in place, so the function returns it together with the armors.
\<close>

function findArmors_contain ::
  "('c, 'b, 'ty, 'z) GyroDetector_ext_scheme \<Rightarrow> 'b list \<Rightarrow> ('b, 'ty) Armor \<Rightarrow> nat \<Rightarrow> nat \<Rightarrow> bool" where
  "findArmors_contain E light_blobs armor k j =
     (if k < j then
        (if isContainBlob E (light_blobs ! k) armor then True
         else findArmors_contain E light_blobs armor (k + 1) j)
      else False)"
  by pat_completeness auto
termination
  by (relation "measure (\<lambda>(E, light_blobs, armor, k, j). j - k)") auto

function findArmors_inner ::
  "('c, 'b, 'ty, 'z) GyroDetector_ext_scheme \<Rightarrow> 'b list \<Rightarrow> nat \<Rightarrow> nat \<Rightarrow> ('b, 'ty) Armor list
     \<Rightarrow> ('b, 'ty) Armor list" where
  "findArmors_inner E light_blobs i j current_armors =
     (if j < length light_blobs then
        (case make_combo E (light_blobs ! i) (light_blobs ! j) of
           None \<Rightarrow> findArmors_inner E light_blobs i (j + 1) current_armors
         | Some armor \<Rightarrow>
             if findArmors_contain E light_blobs armor (i + 1) j
             then findArmors_inner E light_blobs i (j + 1) current_armors
             else findArmors_inner E light_blobs i (j + 1) (current_armors @ [armor]))
      else current_armors)"
  by pat_completeness auto
termination
  by (relation "measure (\<lambda>(E, light_blobs, i, j, current_armors). length light_blobs - j)") auto

function findArmors_outer ::
  "('c, 'b, 'ty, 'z) GyroDetector_ext_scheme \<Rightarrow> 'b list \<Rightarrow> nat \<Rightarrow> ('b, 'ty) Armor list
     \<Rightarrow> ('b, 'ty) Armor list" where
  "findArmors_outer E light_blobs i current_armors =
     (if i + 1 < length light_blobs then
        findArmors_outer E light_blobs (i + 1)
          (findArmors_inner E light_blobs i (i + 1) current_armors)
      else current_armors)"
  by pat_completeness auto
termination
  by (relation "measure (\<lambda>(E, light_blobs, i, current_armors). length light_blobs - i)") auto

definition findArmors ::
  "('c, 'b, 'ty, 'z) GyroDetector_ext_scheme \<Rightarrow> 'b list \<Rightarrow> 'b list \<times> ('b, 'ty) Armor list" where
  "findArmors E light_blobs =
     (let light_blobs = std_sort E light_blobs;
          current_armors = []
      in if length light_blobs < 2 then (light_blobs, current_armors)
         else (light_blobs, findArmors_outer E light_blobs 0 current_armors))"

text \<open>
  \<^verbatim>\<open>GyroDetector::eraseErrorArmors\<close>. The armors are pointers, read through the store
  \<open>H\<close>; \<open>armor_map\<close> is the \<^verbatim>\<open>unordered_map<armor_ptr, bool>\<close>, and reading a key that
  is absent yields \<open>False\<close>, as \<^verbatim>\<open>operator[]\<close> does. The body of the two loops, the loop
  over \<open>j\<close>, the loop over \<open>i\<close>, and the function.
\<close>

definition armor_map_get :: "('p \<rightharpoonup> bool) \<Rightarrow> 'p \<Rightarrow> bool" where
  "armor_map_get armor_map val = (case armor_map val of None \<Rightarrow> False | Some flag \<Rightarrow> flag)"

definition eraseErrorArmors_mark ::
  "('p \<Rightarrow> ('b, 'ty) Armor) \<Rightarrow> 'p list \<Rightarrow> nat \<Rightarrow> nat \<Rightarrow> ('p \<rightharpoonup> bool) \<Rightarrow> ('p \<rightharpoonup> bool)" where
  "eraseErrorArmors_mark H armors i j armor_map =
     (if at0 (H (armors ! i)) = at0 (H (armors ! j)) \<or> at1 (H (armors ! i)) = at1 (H (armors ! j))
      then armor_map((if getWidth (H (armors ! i)) > getWidth (H (armors ! j))
                      then armors ! i else armors ! j) \<mapsto> True)
      else if at0 (H (armors ! i)) = at1 (H (armors ! j)) \<or> at1 (H (armors ! i)) = at0 (H (armors ! j))
      then armor_map((if getError (H (armors ! i)) > getError (H (armors ! j))
                      then armors ! i else armors ! j) \<mapsto> True)
      else armor_map)"

function eraseErrorArmors_inner ::
  "('p \<Rightarrow> ('b, 'ty) Armor) \<Rightarrow> 'p list \<Rightarrow> nat \<Rightarrow> nat \<Rightarrow> ('p \<rightharpoonup> bool) \<Rightarrow> ('p \<rightharpoonup> bool)" where
  "eraseErrorArmors_inner H armors i j armor_map =
     (if j < length armors
      then eraseErrorArmors_inner H armors i (j + 1) (eraseErrorArmors_mark H armors i j armor_map)
      else armor_map)"
  by pat_completeness auto
termination
  by (relation "measure (\<lambda>(H, armors, i, j, armor_map). length armors - j)") auto

function eraseErrorArmors_outer ::
  "('p \<Rightarrow> ('b, 'ty) Armor) \<Rightarrow> 'p list \<Rightarrow> nat \<Rightarrow> ('p \<rightharpoonup> bool) \<Rightarrow> ('p \<rightharpoonup> bool)" where
  "eraseErrorArmors_outer H armors i armor_map =
     (if i + 1 < length armors
      then eraseErrorArmors_outer H armors (i + 1) (eraseErrorArmors_inner H armors i (i + 1) armor_map)
      else armor_map)"
  by pat_completeness auto
termination
  by (relation "measure (\<lambda>(H, armors, i, armor_map). length armors - i)") auto

definition eraseErrorArmors :: "('p \<Rightarrow> ('b, 'ty) Armor) \<Rightarrow> 'p list \<Rightarrow> 'p list" where
  "eraseErrorArmors H armors =
     (if length armors < 2 then armors
      else
        let armor_map = fold (\<lambda>armor m. m(armor \<mapsto> False)) armors Map.empty;
            armor_map = eraseErrorArmors_outer H armors 0 armor_map
        in filter (\<lambda>val. \<not> armor_map_get armor_map val) armors)"

text \<open>
  \<^verbatim>\<open>GyroDetector::find\<close>, built without the inference engine (the \<^verbatim>\<open>#else\<close> branch).
  The armors returned by \<^verbatim>\<open>findArmors\<close> are new objects, pairwise distinct: the pointer to
  an armor is its index in that vector. The features and the combos found are appended to
  the two containers of the caller.
\<close>

definition GyroDetector_find ::
  "('c, 'b, 'ty, 'z) GyroDetector_ext_scheme \<Rightarrow> Mat \<Rightarrow> 'b list \<Rightarrow> ('b, 'ty) Armor list
     \<Rightarrow> 'b list \<times> ('b, 'ty) Armor list" where
  "GyroDetector_find E src features combos =
     (let blobs = findLightBlobs E src;
          blobs = eraseBrightBlobs E src blobs
      in if length blobs \<ge> 2 then
           let (blobs, armors) = findArmors E blobs;
               armors = map (\<lambda>armor. armor\<lparr>getType := UNKNOWN E\<rparr>) armors;
               kept = eraseErrorArmors (\<lambda>p. armors ! p) [0..<length armors]
           in (features @ blobs, combos @ map (\<lambda>p. armors ! p) kept)
         else (features, combos))"

subsection \<open>GyroTracker: the vanish counter (gyro\_tracker.h)\<close>

datatype VanishState = VANISH | APPEAR

text \<open>
  \<^verbatim>\<open>_vanish_num\<close> is a member of the base class \<^verbatim>\<open>tracker\<close>, whose header is not among
  the sources. A counter in C++ is a machine integer: here an unsigned integer of \<open>w\<close> bits,
  the width \<open>w\<close> being a type parameter, whose increment wraps from \<open>2 ^ w - 1\<close> to \<open>0\<close>;
  at \<^typ>\<open>32 word\<close> it is a \<^verbatim>\<open>uint32_t\<close>. All other members of the tracker live in the
  extension part of the record.
\<close>

record 'n tracker =
  vanish_num :: 'n

text \<open>
  \<^verbatim>\<open>inline void updateVanishState(VanishState state)
  { state == VANISH ? _vanish_num++ : _vanish_num = 0; }\<close>
\<close>

definition updateVanishState ::
  "VanishState \<Rightarrow> ('w::len word, 'z) tracker_scheme \<Rightarrow> ('w word, 'z) tracker_scheme" where
  "updateVanishState state t =
     (if state = VANISH then t\<lparr>vanish_num := vanish_num t + 1\<rparr> else t\<lparr>vanish_num := 0\<rparr>)"

text \<open>A sequence of calls, oldest first.\<close>

fun updateVanishStates ::
  "VanishState list \<Rightarrow> ('w::len word, 'z) tracker_scheme \<Rightarrow> ('w word, 'z) tracker_scheme" where
  "updateVanishStates [] t = t"
| "updateVanishStates (s # ss) t = updateVanishStates ss (updateVanishState s t)"

subsection \<open>RuneTracker: the total angle (rune\_tracker.h)\<close>







subsection \<open>Vocabulary of the properties\<close>

text \<open>
  The armor \<open>a\<close> is built from the light blobs at the indices \<open>i\<close> and \<open>j\<close> of the sorted
  vector \<open>s\<close>, and no light blob strictly between them lies inside it.
\<close>

definition emitted :: "('c, 'b, 'ty, 'z) GyroDetector_ext_scheme \<Rightarrow> 'b list \<Rightarrow> nat \<Rightarrow> nat \<Rightarrow> ('b, 'ty) Armor \<Rightarrow> bool" where
  "emitted E s i j a \<longleftrightarrow>
     make_combo E (s ! i) (s ! j) = Some a \<and> \<not> (\<exists>m. i < m \<and> m < j \<and> isContainBlob E (s ! m) a)"

text \<open>
  Two armors share a light blob in the same role (both left or both right), or in opposite
  roles (the left one of one is the right one of the other).
\<close>

definition same_role :: "('b, 'ty) Armor \<Rightarrow> ('b, 'ty) Armor \<Rightarrow> bool" where
  "same_role a b \<longleftrightarrow> at0 a = at0 b \<or> at1 a = at1 b"

definition opposite_role :: "('b, 'ty) Armor \<Rightarrow> ('b, 'ty) Armor \<Rightarrow> bool" where
  "opposite_role a b \<longleftrightarrow> at0 a = at1 b \<or> at1 a = at0 b"

text \<open>
  The armor that the pair \<open>(p, q)\<close> marks, \<open>p\<close> being the one met first in the vector, and
  the armors that some pair of the vector marks.
\<close>

definition pair_mark :: "('p \<Rightarrow> ('b, 'ty) Armor) \<Rightarrow> 'p \<Rightarrow> 'p \<Rightarrow> 'p option" where
  "pair_mark H p q =
     (if same_role (H p) (H q) then Some (if getWidth (H p) > getWidth (H q) then p else q)
      else if opposite_role (H p) (H q) then Some (if getError (H p) > getError (H q) then p else q)
      else None)"

definition removable :: "('p \<Rightarrow> ('b, 'ty) Armor) \<Rightarrow> 'p list \<Rightarrow> 'p \<Rightarrow> bool" where
  "removable H armors p \<longleftrightarrow>
     (\<exists>i j. i < j \<and> j < length armors \<and> pair_mark H (armors ! i) (armors ! j) = Some p)"

text \<open>The light blobs that pass the minimum-area filter and the brightness filter.\<close>

definition surviving_blobs :: "('c, 'b, 'ty, 'z) GyroDetector_ext_scheme \<Rightarrow> Mat \<Rightarrow> 'b list" where
  "surviving_blobs E src = eraseBrightBlobs E src (findLightBlobs E src)"






subsection \<open>Example inputs\<close>

text \<open>The Euclidean distance, an instance of \<^verbatim>\<open>getDistance\<close>.\<close>

definition euclid :: "Point2f \<Rightarrow> Point2f \<Rightarrow> real" where
  "euclid p q = sqrt ((fst p - fst q)\<^sup>2 + (snd p - snd q)\<^sup>2)"

text \<open>
  The conversion of a real number to the nearest \<^verbatim>\<open>float\<close>, a number with a significand of
  24 bits, for the numbers within the normal range of a \<^verbatim>\<open>float\<close>. A number halfway
  between two \<^verbatim>\<open>float\<close>s is rounded upwards here, to the even one in the machine; no
  number converted below lies halfway.
\<close>

definition float32 :: "real \<Rightarrow> real" where
  "float32 x =
     (if x = 0 then 0
      else let e = \<lfloor>log 2 \<bar>x\<bar>\<rfloor> - 23
           in real_of_int (round (x / 2 powr real_of_int e)) * 2 powr real_of_int e)"

text \<open>
  Two arrays of corners: a parallelogram whose first side has length \<open>sqrt 2\<close> and whose
  second side has length \<open>1\<close>, and a rectangle of sides 4 and 3.
\<close>

definition slanted :: corners4 where
  "slanted = ((0, 0), (1, 1), (2, 1), (1, 0))"




text \<open>A heap with two features and, at address 2, a combo of them.\<close>

definition demo_heap :: "(string, nat) heap" where
  "demo_heap =
     \<lparr>feature_at = [0 \<mapsto> ''left'', 1 \<mapsto> ''right''],
      combo_at = [2 \<mapsto> \<lparr>c_features = [0, 1], c_height = 3, c_width = 4, c_center = (5, 6),
                        c_angle = 7, c_corners = [(0, 0), (1, 1)], c_type = 8, c_tick = 9\<rparr>],
      next_free = 3\<rparr>"

text \<open>
  A detector environment over a given list of contours. A contour and the light blob made
  of it are both the number that is the horizontal centre of the blob; every pair of light
  blobs makes an armor, and a light blob is inside an armor when it lies strictly between
  its two light blobs. An image without light.
\<close>

definition demo_ext :: "nat list \<Rightarrow> (nat, nat, unit) GyroDetector_ext" where
  "demo_ext contours =
     \<lparr>findContours = (\<lambda>src. contours),
      contourArea = (\<lambda>c. 50),
      MIN_CONTOUR_AREA = 10,
      make_feature = (\<lambda>c. Some c),
      blob = (\<lambda>p. \<lparr>blob_center = (real p, 50), blob_height = 10\<rparr>),
      std_sort = sort,
      make_combo = (\<lambda>l r. Some \<lparr>at0 = l, at1 = r, getWidth = real r - real l,
                                 getError = 0, getType = ()\<rparr>),
      isContainBlob = (\<lambda>b a. at0 a < b \<and> b < at1 a),
      UNKNOWN = ()\<rparr>"

definition dark :: "int \<Rightarrow> int \<Rightarrow> Mat" where
  "dark r c = \<lparr>rows = r, cols = c, pixel = (\<lambda>y x. (0, 0, 0))\<rparr>"

text \<open>
  Two stores of armors: two armors of equal width that share their left light blob, and a
  chain of three armors in which each shares a light blob with the next in opposite roles.
\<close>

definition tie_store :: "nat \<Rightarrow> (nat, unit) Armor" where
  "tie_store p =
     (if p = 0 then \<lparr>at0 = 10, at1 = 11, getWidth = 5, getError = 0, getType = ()\<rparr>
      else \<lparr>at0 = 10, at1 = 12, getWidth = 5, getError = 0, getType = ()\<rparr>)"

definition chain_store :: "nat \<Rightarrow> (nat, unit) Armor" where
  "chain_store p =
     (if p = 0 then \<lparr>at0 = 10, at1 = 11, getWidth = 4, getError = 1, getType = ()\<rparr>
      else if p = 1 then \<lparr>at0 = 11, at1 = 12, getWidth = 4, getError = 2, getType = ()\<rparr>
      else \<lparr>at0 = 12, at1 = 13, getWidth = 4, getError = 3, getType = ()\<rparr>)"

declare findArmors_contain.simps [simp del] findArmors_inner.simps [simp del]
  findArmors_outer.simps [simp del]

declare eraseErrorArmors_inner.simps [simp del] eraseErrorArmors_outer.simps [simp del]

declare clone_loop.simps [simp del]

section \<open>Candidate matching: the loops of findArmors\<close>

text \<open>Index ranges of the loops, split at their first index.\<close>

lemma ex_from_index:
  "(\<exists>m::nat. k \<le> m \<and> m < n \<and> P m) \<longleftrightarrow> (k < n \<and> P k) \<or> (\<exists>m. k + 1 \<le> m \<and> m < n \<and> P m)"
  (is "?L \<longleftrightarrow> ?A \<or> ?B")
proof
  assume ?L
  then obtain m where m: "k \<le> m" "m < n" "P m" by blast
  show "?A \<or> ?B"
  proof (cases "m = k")
    case True
    with m show ?thesis by simp
  next
    case False
    with m have "k + 1 \<le> m" by simp
    with m show ?thesis by blast
  qed
next
  assume "?A \<or> ?B"
  then show ?L
  proof
    assume ?A
    then have "k \<le> k \<and> k < n \<and> P k" by simp
    then show ?thesis by blast
  next
    assume ?B
    then obtain m where "k + 1 \<le> m" "m < n" "P m" by blast
    then have "k \<le> m \<and> m < n \<and> P m" by simp
    then show ?thesis by blast
  qed
qed

lemma ex_pair_from_index:
  "(\<exists>i' j'. (i::nat) \<le> i' \<and> i' < j' \<and> j' < n \<and> P i' j')
     \<longleftrightarrow> (\<exists>j'. i + 1 \<le> j' \<and> j' < n \<and> P i j')
         \<or> (\<exists>i' j'. i + 1 \<le> i' \<and> i' < j' \<and> j' < n \<and> P i' j')"
  (is "?L \<longleftrightarrow> ?A \<or> ?B")
proof
  assume ?L
  then obtain i' j' where h: "i \<le> i'" "i' < j'" "j' < n" "P i' j'" by blast
  show "?A \<or> ?B"
  proof (cases "i' = i")
    case True
    with h have "i + 1 \<le> j' \<and> j' < n \<and> P i j'" by simp
    then show ?thesis by blast
  next
    case False
    with h have "i + 1 \<le> i' \<and> i' < j' \<and> j' < n \<and> P i' j'" by simp
    then show ?thesis by blast
  qed
next
  assume "?A \<or> ?B"
  then show ?L
  proof
    assume ?A
    then obtain j' where "i + 1 \<le> j'" "j' < n" "P i j'" by blast
    then have "i \<le> i \<and> i < j' \<and> j' < n \<and> P i j'" by simp
    then show ?thesis by blast
  next
    assume ?B
    then obtain i' j' where "i + 1 \<le> i'" "i' < j'" "j' < n" "P i' j'" by blast
    then have "i \<le> i' \<and> i' < j' \<and> j' < n \<and> P i' j'" by simp
    then show ?thesis by blast
  qed
qed

text \<open>What the three loops of \<^verbatim>\<open>findArmors\<close> compute.\<close>

lemma findArmors_contain_iff:
  "findArmors_contain E s a k j \<longleftrightarrow> (\<exists>m. k \<le> m \<and> m < j \<and> isContainBlob E (s ! m) a)"
proof (induction E s a k j rule: findArmors_contain.induct)
  case (1 E s a k j)
  show ?case
  proof (cases "k < j")
    case False
    then show ?thesis by (simp add: findArmors_contain.simps [of E s a k j])
  next
    case True
    show ?thesis
    proof (cases "isContainBlob E (s ! k) a")
      case True
      with \<open>k < j\<close> show ?thesis
        by (auto simp: findArmors_contain.simps [of E s a k j])
    next
      case False
      have "(\<exists>m. k + 1 \<le> m \<and> m < j \<and> isContainBlob E (s ! m) a)
            \<longleftrightarrow> (\<exists>m. k \<le> m \<and> m < j \<and> isContainBlob E (s ! m) a)"
        using False \<open>k < j\<close> ex_from_index [of k j "\<lambda>m. isContainBlob E (s ! m) a"] by simp
      with 1 \<open>k < j\<close> False show ?thesis
        by (simp add: findArmors_contain.simps [of E s a k j])
    qed
  qed
qed

lemma set_findArmors_inner:
  "set (findArmors_inner E s i j cur)
     = set cur \<union> {a. \<exists>j'. j \<le> j' \<and> j' < length s \<and> emitted E s i j' a}"
proof (induction E s i j cur rule: findArmors_inner.induct)
  case (1 E s i j cur)
  show ?case
  proof (cases "j < length s")
    case False
    then show ?thesis by (auto simp: findArmors_inner.simps [of E s i j cur])
  next
    case True
    have split: "{a. \<exists>j'. j \<le> j' \<and> j' < length s \<and> emitted E s i j' a}
        = {a. emitted E s i j a} \<union> {a. \<exists>j'. j + 1 \<le> j' \<and> j' < length s \<and> emitted E s i j' a}"
      using True ex_from_index [of j "length s" "\<lambda>j'. emitted E s i j' _"] by auto
    show ?thesis
    proof (cases "make_combo E (s ! i) (s ! j)")
      case None
      then have "{a. emitted E s i j a} = {}" by (simp add: emitted_def)
      with 1(1) [OF True None] True None split show ?thesis
        by (simp add: findArmors_inner.simps [of E s i j cur])
    next
      case (Some armor)
      show ?thesis
      proof (cases "findArmors_contain E s armor (i + 1) j")
        case True
        then have "{a. emitted E s i j a} = {}"
          using Some by (auto simp: emitted_def findArmors_contain_iff Suc_le_eq)
        with 1(2) [OF \<open>j < length s\<close> Some True] \<open>j < length s\<close> Some True split show ?thesis
          by (simp add: findArmors_inner.simps [of E s i j cur])
      next
        case False
        then have "{a. emitted E s i j a} = {armor}"
          using Some by (auto simp: emitted_def findArmors_contain_iff Suc_le_eq)
        with 1(3) [OF \<open>j < length s\<close> Some False] \<open>j < length s\<close> Some False split show ?thesis
          by (simp add: findArmors_inner.simps [of E s i j cur] Un_assoc)
      qed
    qed
  qed
qed

lemma set_findArmors_outer:
  "set (findArmors_outer E s i cur)
     = set cur \<union> {a. \<exists>i' j'. i \<le> i' \<and> i' < j' \<and> j' < length s \<and> emitted E s i' j' a}"
proof (induction E s i cur rule: findArmors_outer.induct)
  case (1 E s i cur)
  show ?case
  proof (cases "i + 1 < length s")
    case False
    then show ?thesis by (auto simp: findArmors_outer.simps [of E s i cur])
  next
    case True
    have "{a. \<exists>i' j'. i \<le> i' \<and> i' < j' \<and> j' < length s \<and> emitted E s i' j' a}
        = {a. \<exists>j'. i + 1 \<le> j' \<and> j' < length s \<and> emitted E s i j' a}
          \<union> {a. \<exists>i' j'. i + 1 \<le> i' \<and> i' < j' \<and> j' < length s \<and> emitted E s i' j' a}"
      (is "?L = ?A \<union> ?B")
    proof (intro set_eqI iffI)
      fix a assume "a \<in> ?L"
      then obtain i' j' where h: "i \<le> i'" "i' < j'" "j' < length s" "emitted E s i' j' a" by blast
      show "a \<in> ?A \<union> ?B"
      proof (cases "i' = i")
        case True with h show ?thesis by auto
      next
        case False with h have "i + 1 \<le> i'" by simp
        with h show ?thesis by blast
      qed
    next
      fix a assume "a \<in> ?A \<union> ?B"
      then show "a \<in> ?L"
      proof
        assume "a \<in> ?A"
        then obtain j' where "i + 1 \<le> j'" "j' < length s" "emitted E s i j' a" by blast
        then have "i \<le> i \<and> i < j' \<and> j' < length s \<and> emitted E s i j' a" by simp
        then show ?thesis by blast
      next
        assume "a \<in> ?B"
        then obtain i' j' where "i + 1 \<le> i'" "i' < j'" "j' < length s" "emitted E s i' j' a" by blast
        then have "i \<le> i' \<and> i' < j' \<and> j' < length s \<and> emitted E s i' j' a" by simp
        then show ?thesis by blast
      qed
    qed
    with 1 [OF True] True show ?thesis
      by (simp add: findArmors_outer.simps [of E s i cur] set_findArmors_inner Un_assoc)
  qed
qed

lemma set_snd_findArmors:
  "set (snd (findArmors E bs))
     = {a. \<exists>i j. i < j \<and> j < length (std_sort E bs) \<and> emitted E (std_sort E bs) i j a}"
proof (cases "length (std_sort E bs) < 2")
  case True
  then have "\<not> (i < j \<and> j < length (std_sort E bs))" for i j by simp
  with True show ?thesis by (simp add: findArmors_def)
next
  case False
  then show ?thesis by (simp add: findArmors_def Let_def set_findArmors_outer)
qed

lemma fst_findArmors: "fst (findArmors E bs) = std_sort E bs"
  by (simp add: findArmors_def Let_def)

lemma sorted_nth_less:
  assumes "sorted (map f s)" "i < length s" "k < length s" "f (s ! i) < f (s ! k)"
  shows "i < k"
proof (rule ccontr)
  assume "\<not> i < k"
  then have "k \<le> i" by simp
  with assms(1,2) have "map f s ! k \<le> map f s ! i"
    by (simp add: sorted_iff_nth_mono del: nth_map)
  with assms(2,3,4) show False by simp
qed

section \<open>Candidate matching: conflict resolution\<close>

text \<open>The flags of \<open>armor_map\<close> after the body, the inner loop and the outer loop.\<close>

lemma eraseErrorArmors_mark_get:
  "armor_map_get (eraseErrorArmors_mark H xs i j m) p
     \<longleftrightarrow> armor_map_get m p \<or> pair_mark H (xs ! i) (xs ! j) = Some p"
  by (auto simp: eraseErrorArmors_mark_def pair_mark_def same_role_def opposite_role_def
      armor_map_get_def)

lemma eraseErrorArmors_inner_get:
  "armor_map_get (eraseErrorArmors_inner H xs i j m) p
     \<longleftrightarrow> armor_map_get m p
         \<or> (\<exists>j'. j \<le> j' \<and> j' < length xs \<and> pair_mark H (xs ! i) (xs ! j') = Some p)"
proof (induction H xs i j m rule: eraseErrorArmors_inner.induct)
  case (1 H xs i j m)
  show ?case
  proof (cases "j < length xs")
    case False
    then show ?thesis by (auto simp: eraseErrorArmors_inner.simps [of H xs i j m])
  next
    case True
    have "armor_map_get (eraseErrorArmors_inner H xs i j m) p
        \<longleftrightarrow> armor_map_get (eraseErrorArmors_mark H xs i j m) p
            \<or> (\<exists>j'. j + 1 \<le> j' \<and> j' < length xs \<and> pair_mark H (xs ! i) (xs ! j') = Some p)"
      using 1 [OF True] True by (simp add: eraseErrorArmors_inner.simps [of H xs i j m])
    then show ?thesis
      using True ex_from_index [of j "length xs" "\<lambda>j'. pair_mark H (xs ! i) (xs ! j') = Some p"]
      by (auto simp: eraseErrorArmors_mark_get)
  qed
qed

lemma eraseErrorArmors_outer_get:
  "armor_map_get (eraseErrorArmors_outer H xs i m) p
     \<longleftrightarrow> armor_map_get m p
         \<or> (\<exists>i' j'. i \<le> i' \<and> i' < j' \<and> j' < length xs \<and> pair_mark H (xs ! i') (xs ! j') = Some p)"
proof (induction H xs i m rule: eraseErrorArmors_outer.induct)
  case (1 H xs i m)
  show ?case
  proof (cases "i + 1 < length xs")
    case False
    then show ?thesis by (auto simp: eraseErrorArmors_outer.simps [of H xs i m])
  next
    case True
    have "armor_map_get (eraseErrorArmors_outer H xs i m) p
        \<longleftrightarrow> (armor_map_get m p
             \<or> (\<exists>j'. i + 1 \<le> j' \<and> j' < length xs \<and> pair_mark H (xs ! i) (xs ! j') = Some p))
            \<or> (\<exists>i' j'. i + 1 \<le> i' \<and> i' < j' \<and> j' < length xs
                  \<and> pair_mark H (xs ! i') (xs ! j') = Some p)"
      using 1 [OF True] True
      by (simp add: eraseErrorArmors_outer.simps [of H xs i m] eraseErrorArmors_inner_get)
    then show ?thesis
      using ex_pair_from_index [of i "length xs" "\<lambda>i' j'. pair_mark H (xs ! i') (xs ! j') = Some p"]
      by blast
  qed
qed

lemma armor_map_init_get:
  "armor_map_get (fold (\<lambda>armor m. m(armor \<mapsto> False)) xs m) p
     \<longleftrightarrow> armor_map_get m p \<and> p \<notin> set xs"
  by (induction xs arbitrary: m) (auto simp: armor_map_get_def)

text \<open>The function keeps, in their order, the armors that no pair of the input marks.\<close>

lemma eraseErrorArmors_filter:
  "eraseErrorArmors H xs = filter (\<lambda>p. \<not> removable H xs p) xs"
proof (cases "length xs < 2")
  case True
  then have "\<not> removable H xs p" for p
    by (auto simp: removable_def)
  with True show ?thesis by (simp add: eraseErrorArmors_def)
next
  case False
  have "armor_map_get (eraseErrorArmors_outer H xs 0
          (fold (\<lambda>armor m. m(armor \<mapsto> False)) xs Map.empty)) p \<longleftrightarrow> removable H xs p" for p
  proof -
    have "\<not> armor_map_get (Map.empty :: 'a \<rightharpoonup> bool) p"
      by (simp add: armor_map_get_def)
    then show ?thesis
      by (simp add: eraseErrorArmors_outer_get armor_map_init_get removable_def)
  qed
  with False show ?thesis by (simp add: eraseErrorArmors_def)
qed

lemma removable_pair: "removable H [p, q] x \<longleftrightarrow> pair_mark H p q = Some x"
proof
  assume "removable H [p, q] x"
  then obtain i j where "i < j" "j < 2" "pair_mark H ([p, q] ! i) ([p, q] ! j) = Some x"
    by (auto simp: removable_def)
  moreover from this have "i = 0" "j = 1" by simp_all
  ultimately show "pair_mark H p q = Some x" by simp
next
  assume "pair_mark H p q = Some x"
  then have "(0::nat) < 1 \<and> (1::nat) < length [p, q] \<and> pair_mark H ([p, q] ! 0) ([p, q] ! 1) = Some x"
    by simp
  then show "removable H [p, q] x" unfolding removable_def by blast
qed

lemma removable_anywhere:
  assumes "p \<in> set xs" "q \<in> set xs" "p \<noteq> q"
    "pair_mark H p q = Some r" "pair_mark H q p = Some r"
  shows "removable H xs r"
proof -
  from assms(1,2) obtain i j where ij: "i < length xs" "xs ! i = p" "j < length xs" "xs ! j = q"
    by (auto simp: in_set_conv_nth)
  with assms(3) have "i \<noteq> j" by auto
  then consider "i < j" | "j < i" by linarith
  then show ?thesis
  proof cases
    case 1
    with ij assms(4) have "i < j \<and> j < length xs \<and> pair_mark H (xs ! i) (xs ! j) = Some r" by simp
    then show ?thesis unfolding removable_def by blast
  next
    case 2
    with ij assms(5) have "j < i \<and> i < length xs \<and> pair_mark H (xs ! j) (xs ! i) = Some r" by simp
    then show ?thesis unfolding removable_def by blast
  qed
qed

lemmas eraseErrorArmors_eval =
  eraseErrorArmors_def eraseErrorArmors_outer.simps eraseErrorArmors_inner.simps
  eraseErrorArmors_mark_def armor_map_get_def

text \<open>
  Claim C2, as stated, fails where the widths are equal. The claim has the wider armor of a
  pair marked, and no armor absent from the result but the marked ones. Of two armors of
  equal width that share their left light blob neither is the wider one, they share nothing
  in opposite roles, and they are the only pair of the input; all the same the second is
  absent from the result.
\<close>

theorem eraseErrorArmors_tie_drops_later:
  "same_role (tie_store 0) (tie_store 1)
   \<and> \<not> getWidth (tie_store 0) > getWidth (tie_store 1)
   \<and> \<not> getWidth (tie_store 1) > getWidth (tie_store 0)
   \<and> \<not> opposite_role (tie_store 0) (tie_store 1)
   \<and> 1 \<in> set [0, 1 :: nat]
   \<and> 1 \<notin> set (eraseErrorArmors tie_store [0, 1])"
  by (simp add: eraseErrorArmors_eval tie_store_def same_role_def opposite_role_def)

text \<open>
  Claim C2, amended. Let the two light blobs of every armor be distinct objects, as the data
  model has it. For every pair of positions \<open>i < j\<close> of the input: if the two armors share
  a light blob in the same role, the pair marks the first when it is strictly wider and the
  second otherwise, also when the widths are equal, and the marked armor is absent from the
  result; if they share a light blob in opposite roles, the pair marks the first when it
  has the strictly larger error and the second otherwise, and the marked armor is absent.
  An armor of the input that is absent from the result is the armor marked by some pair.
  The result is the input without the absent armors, in the same order. Every clause speaks
  of the pairs of the input, whether or not the other member of a pair is itself absent: the
  marks come from one pass over the input.
\<close>

theorem eraseErrorArmors_conflict_resolution:
  assumes inv: "\<forall>p \<in> set armors. at0 (H p) \<noteq> at1 (H p)"
  shows "(\<forall>i j. i < j \<and> j < length armors \<and> same_role (H (armors ! i)) (H (armors ! j)) \<longrightarrow>
            (if getWidth (H (armors ! i)) > getWidth (H (armors ! j)) then armors ! i else armors ! j)
              \<notin> set (eraseErrorArmors H armors))
       \<and> (\<forall>i j. i < j \<and> j < length armors \<and> opposite_role (H (armors ! i)) (H (armors ! j)) \<longrightarrow>
            (if getError (H (armors ! i)) > getError (H (armors ! j)) then armors ! i else armors ! j)
              \<notin> set (eraseErrorArmors H armors))
       \<and> (\<forall>p. p \<in> set armors \<and> p \<notin> set (eraseErrorArmors H armors) \<longrightarrow>
            (\<exists>i j. i < j \<and> j < length armors \<and>
               (same_role (H (armors ! i)) (H (armors ! j))
                  \<and> p = (if getWidth (H (armors ! i)) > getWidth (H (armors ! j))
                          then armors ! i else armors ! j)
                \<or> opposite_role (H (armors ! i)) (H (armors ! j))
                  \<and> p = (if getError (H (armors ! i)) > getError (H (armors ! j))
                          then armors ! i else armors ! j))))
       \<and> eraseErrorArmors H armors
           = filter (\<lambda>p. p \<in> set (eraseErrorArmors H armors)) armors"
proof -
  have mem: "p \<in> set (eraseErrorArmors H armors) \<longleftrightarrow> p \<in> set armors \<and> \<not> removable H armors p" for p
    by (simp add: eraseErrorArmors_filter)
  have excl: "\<not> same_role (H (armors ! i)) (H (armors ! j))"
    if "i < j" "j < length armors" "opposite_role (H (armors ! i)) (H (armors ! j))" for i j
  proof -
    from that have "armors ! i \<in> set armors" "armors ! j \<in> set armors" by simp_all
    with inv have "at0 (H (armors ! i)) \<noteq> at1 (H (armors ! i))"
      "at0 (H (armors ! j)) \<noteq> at1 (H (armors ! j))" by blast+
    with that(3) show ?thesis by (auto simp: same_role_def opposite_role_def)
  qed
  have same: "(if getWidth (H (armors ! i)) > getWidth (H (armors ! j)) then armors ! i else armors ! j)
              \<notin> set (eraseErrorArmors H armors)"
    if "i < j" "j < length armors" "same_role (H (armors ! i)) (H (armors ! j))" for i j
  proof -
    have "pair_mark H (armors ! i) (armors ! j)
        = Some (if getWidth (H (armors ! i)) > getWidth (H (armors ! j)) then armors ! i else armors ! j)"
      using that(3) by (simp add: pair_mark_def)
    with that(1,2) have "removable H armors
        (if getWidth (H (armors ! i)) > getWidth (H (armors ! j)) then armors ! i else armors ! j)"
      unfolding removable_def by blast
    then show ?thesis by (simp only: mem) simp
  qed
  have opp: "(if getError (H (armors ! i)) > getError (H (armors ! j)) then armors ! i else armors ! j)
              \<notin> set (eraseErrorArmors H armors)"
    if "i < j" "j < length armors" "opposite_role (H (armors ! i)) (H (armors ! j))" for i j
  proof -
    have "pair_mark H (armors ! i) (armors ! j)
        = Some (if getError (H (armors ! i)) > getError (H (armors ! j)) then armors ! i else armors ! j)"
      using that(3) excl [OF that] by (simp add: pair_mark_def)
    with that(1,2) have "removable H armors
        (if getError (H (armors ! i)) > getError (H (armors ! j)) then armors ! i else armors ! j)"
      unfolding removable_def by blast
    then show ?thesis by (simp only: mem) simp
  qed
  have only: "\<exists>i j. i < j \<and> j < length armors \<and>
               (same_role (H (armors ! i)) (H (armors ! j))
                  \<and> p = (if getWidth (H (armors ! i)) > getWidth (H (armors ! j))
                          then armors ! i else armors ! j)
                \<or> opposite_role (H (armors ! i)) (H (armors ! j))
                  \<and> p = (if getError (H (armors ! i)) > getError (H (armors ! j))
                          then armors ! i else armors ! j))"
    if "p \<in> set armors" "p \<notin> set (eraseErrorArmors H armors)" for p
  proof -
    from that have "removable H armors p" by (simp add: mem)
    then obtain i j where ij: "i < j" "j < length armors"
      and pm: "pair_mark H (armors ! i) (armors ! j) = Some p"
      unfolding removable_def by blast
    from pm have "same_role (H (armors ! i)) (H (armors ! j))
                  \<and> p = (if getWidth (H (armors ! i)) > getWidth (H (armors ! j))
                          then armors ! i else armors ! j)
                \<or> opposite_role (H (armors ! i)) (H (armors ! j))
                  \<and> p = (if getError (H (armors ! i)) > getError (H (armors ! j))
                          then armors ! i else armors ! j)"
      by (auto simp: pair_mark_def split: if_splits)
    with ij show ?thesis by blast
  qed
  have filt: "eraseErrorArmors H armors
           = filter (\<lambda>p. p \<in> set (eraseErrorArmors H armors)) armors"
  proof -
    have "filter (\<lambda>p. \<not> removable H armors p) armors
        = filter (\<lambda>p. p \<in> set armors \<and> \<not> removable H armors p) armors"
      by (rule filter_cong) simp_all
    then show ?thesis by (simp add: mem) (simp add: eraseErrorArmors_filter)
  qed
  from same opp only filt show ?thesis by blast
qed

text \<open>
  In the chain, the second armor loses against the first and the third against the second:
  both are dropped, although the armor that beat the third is itself dropped. Of the two
  armors of equal width, the second is dropped.
\<close>

theorem eraseErrorArmors_conflict_resolution_witness:
  "list_all (\<lambda>p. at0 (chain_store p) \<noteq> at1 (chain_store p)) [0, 1, 2]
   \<and> opposite_role (chain_store 0) (chain_store 1)
   \<and> opposite_role (chain_store 1) (chain_store 2)
   \<and> 1 \<notin> set (eraseErrorArmors chain_store [0, 1, 2])
   \<and> 2 \<notin> set (eraseErrorArmors chain_store [0, 1, 2])
   \<and> eraseErrorArmors chain_store [0, 1, 2] = [0]
   \<and> list_all (\<lambda>p. at0 (tie_store p) \<noteq> at1 (tie_store p)) [0, 1]
   \<and> same_role (tie_store 0) (tie_store 1)
   \<and> getWidth (tie_store 0) = getWidth (tie_store 1)
   \<and> 1 \<notin> set (eraseErrorArmors tie_store [0, 1])"
proof -
  have inv: "\<forall>p \<in> set [0, 1, 2]. at0 (chain_store p) \<noteq> at1 (chain_store p)"
    by (simp add: chain_store_def)
  have inv': "\<forall>p \<in> set [0, 1]. at0 (tie_store p) \<noteq> at1 (tie_store p)"
    by (simp add: tie_store_def)
  have run: "eraseErrorArmors chain_store [0, 1, 2] = [0]"
    by (simp add: eraseErrorArmors_eval chain_store_def)
  have tie: "same_role (tie_store 0) (tie_store 1)"
    by (simp add: tie_store_def same_role_def)
  note tie_pair = eraseErrorArmors_conflict_resolution
    [OF inv', THEN conjunct1, rule_format, of 0 1]
  have dropped: "1 \<notin> set (eraseErrorArmors tie_store [0, 1])"
    using tie_pair tie by (simp add: tie_store_def)
  note chain_pair = eraseErrorArmors_conflict_resolution
    [OF inv, THEN conjunct2, THEN conjunct1, rule_format, of 1 2]
  have opp: "opposite_role (chain_store 0) (chain_store 1)"
    "opposite_role (chain_store 1) (chain_store 2)"
    by (simp_all add: chain_store_def opposite_role_def)
  have third: "2 \<notin> set (eraseErrorArmors chain_store [0, 1, 2])"
    using chain_pair opp by (simp add: chain_store_def)
  from inv inv' opp run dropped tie third
  show ?thesis
    by (simp add: chain_store_def tie_store_def)
qed

text \<open>
  Claim C3, as stated, fails where the widths are equal: of two armors of equal width that
  share their left light blob, the one that comes first in the input survives, so the
  survivor changes with the order of the input.
\<close>

theorem eraseErrorArmors_tie_depends_on_order:
  "same_role (tie_store 0) (tie_store 1)
   \<and> getWidth (tie_store 0) = getWidth (tie_store 1)
   \<and> eraseErrorArmors tie_store [0, 1] = [0]
   \<and> eraseErrorArmors tie_store [1, 0] = [1]"
  by (simp add: eraseErrorArmors_eval tie_store_def same_role_def)

text \<open>
  Claim C3, amended. Let \<open>p\<close> and \<open>q\<close> be armors whose two light blobs are distinct
  objects. If they share a light blob in the same role and \<open>p\<close> is strictly narrower, or in
  opposite roles and \<open>p\<close> has the strictly smaller error, then \<open>q\<close> is dropped from every
  input that holds both, wherever they stand in it, and of the two alone \<open>p\<close> survives in
  either order. If the widths (same role) or the errors (opposite roles) are equal, the
  armor that comes first in the input survives.
\<close>

theorem eraseErrorArmors_pair_order:
  assumes inv: "at0 (H p) \<noteq> at1 (H p)" "at0 (H q) \<noteq> at1 (H q)"
  shows "(same_role (H p) (H q) \<and> getWidth (H p) < getWidth (H q) \<longrightarrow>
            (\<forall>xs. p \<in> set xs \<and> q \<in> set xs \<longrightarrow> q \<notin> set (eraseErrorArmors H xs))
            \<and> eraseErrorArmors H [p, q] = [p] \<and> eraseErrorArmors H [q, p] = [p])
       \<and> (opposite_role (H p) (H q) \<and> getError (H p) < getError (H q) \<longrightarrow>
            (\<forall>xs. p \<in> set xs \<and> q \<in> set xs \<longrightarrow> q \<notin> set (eraseErrorArmors H xs))
            \<and> eraseErrorArmors H [p, q] = [p] \<and> eraseErrorArmors H [q, p] = [p])
       \<and> (p \<noteq> q \<and> same_role (H p) (H q) \<and> getWidth (H p) = getWidth (H q) \<longrightarrow>
            eraseErrorArmors H [p, q] = [p] \<and> eraseErrorArmors H [q, p] = [q])
       \<and> (p \<noteq> q \<and> opposite_role (H p) (H q) \<and> getError (H p) = getError (H q) \<longrightarrow>
            eraseErrorArmors H [p, q] = [p] \<and> eraseErrorArmors H [q, p] = [q])"
proof -
  have excl: "\<not> same_role (H p) (H q)" "\<not> same_role (H q) (H p)" if "opposite_role (H p) (H q)"
    using that inv by (auto simp: same_role_def opposite_role_def)
  have sym: "same_role (H q) (H p) = same_role (H p) (H q)"
    "opposite_role (H q) (H p) = opposite_role (H p) (H q)"
    by (auto simp: same_role_def opposite_role_def)
  have pair: "eraseErrorArmors H [a, b] = filter (\<lambda>x. pair_mark H a b \<noteq> Some x) [a, b]" for a b
    by (simp only: eraseErrorArmors_filter removable_pair)
  have strict: "(\<forall>xs. p \<in> set xs \<and> q \<in> set xs \<longrightarrow> q \<notin> set (eraseErrorArmors H xs))
            \<and> eraseErrorArmors H [p, q] = [p] \<and> eraseErrorArmors H [q, p] = [p]"
    if pq: "pair_mark H p q = Some q" and qp: "pair_mark H q p = Some q" and ne: "p \<noteq> q"
  proof -
    have "q \<notin> set (eraseErrorArmors H xs)" if "p \<in> set xs" "q \<in> set xs" for xs
      using removable_anywhere [OF that ne pq qp] by (simp add: eraseErrorArmors_filter)
    moreover have "eraseErrorArmors H [p, q] = [p]" "eraseErrorArmors H [q, p] = [p]"
      using pq qp ne by (auto simp: pair)
    ultimately show ?thesis by blast
  qed
  have c1: "(\<forall>xs. p \<in> set xs \<and> q \<in> set xs \<longrightarrow> q \<notin> set (eraseErrorArmors H xs))
            \<and> eraseErrorArmors H [p, q] = [p] \<and> eraseErrorArmors H [q, p] = [p]"
    if "same_role (H p) (H q)" "getWidth (H p) < getWidth (H q)"
  proof (rule strict)
    show "pair_mark H p q = Some q" using that by (simp add: pair_mark_def)
    show "pair_mark H q p = Some q" using that by (simp add: pair_mark_def sym)
    show "p \<noteq> q" using that(2) by auto
  qed
  have c2: "(\<forall>xs. p \<in> set xs \<and> q \<in> set xs \<longrightarrow> q \<notin> set (eraseErrorArmors H xs))
            \<and> eraseErrorArmors H [p, q] = [p] \<and> eraseErrorArmors H [q, p] = [p]"
    if "opposite_role (H p) (H q)" "getError (H p) < getError (H q)"
  proof (rule strict)
    show "pair_mark H p q = Some q" using that excl by (simp add: pair_mark_def)
    show "pair_mark H q p = Some q" using that excl by (simp add: pair_mark_def sym)
    show "p \<noteq> q" using that(2) by auto
  qed
  have c3: "eraseErrorArmors H [p, q] = [p] \<and> eraseErrorArmors H [q, p] = [q]"
    if "p \<noteq> q" "same_role (H p) (H q)" "getWidth (H p) = getWidth (H q)"
    using that by (auto simp: pair pair_mark_def sym)
  have c4: "eraseErrorArmors H [p, q] = [p] \<and> eraseErrorArmors H [q, p] = [q]"
    if "p \<noteq> q" "opposite_role (H p) (H q)" "getError (H p) = getError (H q)"
    using that excl by (auto simp: pair pair_mark_def sym)
  from c1 c2 c3 c4 show ?thesis by blast
qed

theorem eraseErrorArmors_pair_order_witness:
  "eraseErrorArmors chain_store [0, 1] = [0] \<and> eraseErrorArmors chain_store [1, 0] = [0]
   \<and> 1 \<notin> set (eraseErrorArmors chain_store [2, 1, 0])
   \<and> eraseErrorArmors tie_store [0, 1] = [0] \<and> eraseErrorArmors tie_store [1, 0] = [1]"
proof -
  have "at0 (chain_store 0) \<noteq> at1 (chain_store 0)" "at0 (chain_store 1) \<noteq> at1 (chain_store 1)"
    "at0 (tie_store 0) \<noteq> at1 (tie_store 0)" "at0 (tie_store 1) \<noteq> at1 (tie_store 1)"
    by (simp_all add: chain_store_def tie_store_def)
  from eraseErrorArmors_pair_order [where H = chain_store and p = 0 and q = 1, OF this(1,2)]
    eraseErrorArmors_pair_order [where H = tie_store and p = 0 and q = 1, OF this(3,4)]
  show ?thesis
    by (simp add: chain_store_def tie_store_def same_role_def opposite_role_def)
qed

section \<open>The features returned by find\<close>

lemma set_findLightBlobs_loop:
  "set (findLightBlobs_loop E cs acc)
     = set acc \<union> {p. \<exists>c \<in> set cs. \<not> contourArea E c < MIN_CONTOUR_AREA E \<and> make_feature E c = Some p}"
  by (induction E cs acc rule: findLightBlobs_loop.induct) (auto split: option.splits)

lemma set_surviving_blobs:
  "set (surviving_blobs E src)
     = {p. \<exists>c \<in> set (findContours E src).
             \<not> contourArea E c < MIN_CONTOUR_AREA E \<and> make_feature E c = Some p
           \<and> \<not> total_brightness src (blob E p) > 1100}"
  by (auto simp: surviving_blobs_def eraseBrightBlobs_def findLightBlobs_def set_findLightBlobs_loop)

lemma fst_find:
  "fst (GyroDetector_find E src features combos)
     = (if 2 \<le> length (surviving_blobs E src)
        then features @ std_sort E (surviving_blobs E src) else features)"
  using fst_findArmors [of E "surviving_blobs E src"]
  by (auto simp: GyroDetector_find_def surviving_blobs_def Let_def split: prod.splits)

lemmas detector_eval =
  GyroDetector_find_def surviving_blobs_def findLightBlobs_def demo_ext_def eraseBrightBlobs_def
  total_brightness_def brightness_def sample_x_def sample_y_def trunc_def dark_def upto.simps
  findArmors_def findArmors_outer.simps findArmors_inner.simps findArmors_contain.simps
  eraseErrorArmors_eval

text \<open>
  Claim C7, as stated, fails when a single light blob survives the two filters: the
  function returns the containers of the caller as they were, without that light blob.
\<close>

theorem find_drops_single_feature:
  "surviving_blobs (demo_ext [140]) (dark 100 200) = [140]
   \<and> GyroDetector_find (demo_ext [140]) (dark 100 200) [] [] = ([], [])"
  by (simp add: detector_eval)

text \<open>
  Claim C7, amended. Let the sort meet its contract on the light blobs that survive the
  minimum-area filter and the brightness filter (those made of a contour that is not too
  small and whose total brightness does not exceed 1100). If at least two survive, the
  feature list returned is the caller's list followed by the survivors in sorted order, so
  every survivor appears in it. If fewer than two survive, the feature list and the combo
  list of the caller are returned unchanged.
\<close>

theorem find_features:
  assumes sort: "std_sort_contract E (surviving_blobs E src)"
  shows "(2 \<le> length (surviving_blobs E src) \<longrightarrow>
            fst (GyroDetector_find E src features combos) = features @ std_sort E (surviving_blobs E src)
          \<and> set (surviving_blobs E src) \<subseteq> set (fst (GyroDetector_find E src features combos)))
       \<and> (length (surviving_blobs E src) < 2 \<longrightarrow> GyroDetector_find E src features combos = (features, combos))
       \<and> set (surviving_blobs E src)
           = {p. \<exists>c \<in> set (findContours E src).
                   \<not> contourArea E c < MIN_CONTOUR_AREA E \<and> make_feature E c = Some p
                 \<and> \<not> total_brightness src (blob E p) > 1100}"
proof -
  from sort have "set (std_sort E (surviving_blobs E src)) = set (surviving_blobs E src)"
    unfolding std_sort_contract_def by (metis set_mset_mset)
  then have "set (surviving_blobs E src) \<subseteq> set (fst (GyroDetector_find E src features combos))"
    if "2 \<le> length (surviving_blobs E src)"
    using that by (simp add: fst_find)
  moreover have "GyroDetector_find E src features combos = (features, combos)"
    if "length (surviving_blobs E src) < 2"
    using that by (simp add: GyroDetector_find_def surviving_blobs_def Let_def)
  ultimately show ?thesis
    by (simp add: fst_find set_surviving_blobs)
qed

theorem find_features_witness:
  "std_sort_contract (demo_ext [140, 100, 160]) (surviving_blobs (demo_ext [140, 100, 160]) (dark 100 200))
   \<and> surviving_blobs (demo_ext [140, 100, 160]) (dark 100 200) = [140, 100, 160]
   \<and> fst (GyroDetector_find (demo_ext [140, 100, 160]) (dark 100 200) [7] []) = [7, 100, 140, 160]
   \<and> GyroDetector_find (demo_ext [140]) (dark 100 200) [7] [] = ([7], [])"
proof -
  have s3: "surviving_blobs (demo_ext [140, 100, 160]) (dark 100 200) = [140, 100, 160]"
    by (simp add: detector_eval)
  have s1: "surviving_blobs (demo_ext [140]) (dark 100 200) = [140]"
    by (simp add: detector_eval)
  have c3: "std_sort_contract (demo_ext [140, 100, 160])
      (surviving_blobs (demo_ext [140, 100, 160]) (dark 100 200))"
    unfolding s3 by (simp add: std_sort_contract_def demo_ext_def center_x_def)
  have c1: "std_sort_contract (demo_ext [140]) (surviving_blobs (demo_ext [140]) (dark 100 200))"
    unfolding s1 by (simp add: std_sort_contract_def demo_ext_def center_x_def)
  have sorted3: "std_sort (demo_ext [140, 100, 160]) [140, 100, 160] = [100, 140, 160]"
    by (simp add: demo_ext_def)
  from find_features [OF c3, of "[7]" "[]"] find_features [OF c1, of "[7]" "[]"] c3
  show ?thesis by (simp add: s3 s1 sorted3)
qed

section \<open>Candidate matching: the containment prune\<close>

text \<open>
  The combos that find appends come from the armors of \<^verbatim>\<open>findArmors\<close>, with the same
  light blobs.
\<close>

lemma new_combos_of_find:
  assumes "a \<in> set (drop (length combos) (snd (GyroDetector_find E src features combos)))"
  shows "\<exists>a0 \<in> set (snd (findArmors E (surviving_blobs E src))). at0 a = at0 a0 \<and> at1 a = at1 a0"
proof (cases "2 \<le> length (surviving_blobs E src)")
  case False
  then have "GyroDetector_find E src features combos = (features, combos)"
    by (simp add: GyroDetector_find_def surviving_blobs_def Let_def)
  with assms show ?thesis by simp
next
  case True
  define armors0 where "armors0 = snd (findArmors E (surviving_blobs E src))"
  define armors where "armors = map (\<lambda>armor. armor\<lparr>getType := UNKNOWN E\<rparr>) armors0"
  define kept where "kept = eraseErrorArmors (\<lambda>p. armors ! p) [0..<length armors]"
  from True have "snd (GyroDetector_find E src features combos) = combos @ map (\<lambda>p. armors ! p) kept"
    by (simp add: GyroDetector_find_def surviving_blobs_def Let_def armors0_def armors_def kept_def
        split: prod.splits)
  with assms obtain p where p: "p \<in> set kept" "a = armors ! p" by auto
  from p(1) have "p \<in> set [0..<length armors]"
    unfolding kept_def eraseErrorArmors_filter by simp
  then have lt: "p < length armors0" by (simp add: armors_def)
  with p(2) have "at0 a = at0 (armors0 ! p) \<and> at1 a = at1 (armors0 ! p)"
    by (simp add: armors_def)
  moreover from lt have "armors0 ! p \<in> set armors0" by simp
  ultimately show ?thesis unfolding armors0_def by blast
qed

text \<open>
  Claim C1. Let the sort meet its contract, and let an armor made of two light blobs given
  from left to right hold them as its left and right one. If \<open>A\<close>, \<open>B\<close>, \<open>C\<close> have their
  horizontal centres in this strict order, \<open>B\<close> is among the input light blobs, and \<open>B\<close>
  lies inside the armor made of \<open>A\<close> and \<open>C\<close>, then no armor returned by \<^verbatim>\<open>findArmors\<close>
  has \<open>A\<close> as its left and \<open>C\<close> as its right light blob; and when the input light blobs
  are those that survive the two filters of a frame, no combo that find appends for the
  frame has.
\<close>

theorem findArmors_containment_prune:
  assumes sort: "std_sort_contract E light_blobs"
    and refs: "\<And>l r a. center_x E l \<le> center_x E r \<Longrightarrow> make_combo E l r = Some a
                 \<Longrightarrow> at0 a = l \<and> at1 a = r"
    and mem: "B \<in> set light_blobs"
    and ord: "center_x E A < center_x E B" "center_x E B < center_x E C"
    and ac: "make_combo E A C = Some ac"
    and inside: "isContainBlob E B ac"
  shows "(\<forall>a \<in> set (snd (findArmors E light_blobs)). \<not> (at0 a = A \<and> at1 a = C))
       \<and> (light_blobs = surviving_blobs E src \<longrightarrow>
            (\<forall>a \<in> set (drop (length combos) (snd (GyroDetector_find E src features combos))).
               \<not> (at0 a = A \<and> at1 a = C)))"
proof -
  have loops: "\<not> (at0 a = A \<and> at1 a = C)" if a: "a \<in> set (snd (findArmors E light_blobs))" for a
  proof
    assume AC: "at0 a = A \<and> at1 a = C"
    define s where "s = std_sort E light_blobs"
    from sort have perm: "mset s = mset light_blobs" and srt: "sorted (map (center_x E) s)"
      by (simp_all add: std_sort_contract_def s_def)
    from a obtain i j where ij: "i < j" "j < length s" and em: "emitted E s i j a"
      by (auto simp: set_snd_findArmors s_def)
    from em have mk: "make_combo E (s ! i) (s ! j) = Some a"
      and none: "\<not> (\<exists>m. i < m \<and> m < j \<and> isContainBlob E (s ! m) a)"
      by (simp_all add: emitted_def)
    from srt ij have "map (center_x E) s ! i \<le> map (center_x E) s ! j"
      by (simp add: sorted_iff_nth_mono del: nth_map)
    with ij have "center_x E (s ! i) \<le> center_x E (s ! j)" by simp
    from refs [OF this mk] AC have si: "s ! i = A" and sj: "s ! j = C" by simp_all
    with mk ac have "a = ac" by simp
    from mem perm have "B \<in> set s" by (metis set_mset_mset)
    then obtain k where k: "k < length s" "s ! k = B" by (auto simp: in_set_conv_nth)
    have "i < k"
      using sorted_nth_less [OF srt _ k(1), of i] ij k si ord by simp
    moreover have "k < j"
      using sorted_nth_less [OF srt k(1) ij(2)] k sj ord by simp
    ultimately show False
      using none k inside \<open>a = ac\<close> by blast
  qed
  have "\<not> (at0 a = A \<and> at1 a = C)"
    if "light_blobs = surviving_blobs E src"
      and "a \<in> set (drop (length combos) (snd (GyroDetector_find E src features combos)))" for a
  proof -
    from new_combos_of_find [OF that(2)] that(1) obtain a0
      where "a0 \<in> set (snd (findArmors E light_blobs))" "at0 a = at0 a0" "at1 a = at1 a0"
      by auto
    with loops [of a0] show ?thesis by simp
  qed
  with loops show ?thesis by blast
qed

text \<open>
  The scenario of three light blobs at 100, 120 and 140: the armor from 100 to 140 is
  pruned, the two armors next to the middle blob are found, and conflict resolution keeps
  the first of them.
\<close>

lemma demo_findArmors:
  "findArmors (demo_ext cs) [140, 100, 120]
   = ([100, 120, 140],
      [\<lparr>at0 = 100, at1 = 120, getWidth = 20, getError = 0, getType = ()\<rparr>,
       \<lparr>at0 = 120, at1 = 140, getWidth = 20, getError = 0, getType = ()\<rparr>])"
  by (simp add: findArmors_def demo_ext_def findArmors_outer.simps findArmors_inner.simps
        findArmors_contain.simps)

lemma demo_eraseErrorArmors:
  "eraseErrorArmors
     ((!) [\<lparr>at0 = 100, at1 = 120, getWidth = 20, getError = 0, getType = ()\<rparr>,
           \<lparr>at0 = 120::nat, at1 = 140, getWidth = 20, getError = 0, getType = ()\<rparr>])
     [0, Suc 0] = [0]"
  by (simp add: eraseErrorArmors_eval)

lemma demo_surviving_blobs:
  "surviving_blobs (demo_ext [140, 100, 120]) (dark 100 200) = [140, 100, 120]"
  by (simp add: detector_eval)

lemma demo_find:
  "snd (GyroDetector_find (demo_ext [140, 100, 120]) (dark 100 200) [] [])
     = [\<lparr>at0 = 100, at1 = 120, getWidth = 20, getError = 0, getType = ()\<rparr>]"
  using demo_surviving_blobs [unfolded surviving_blobs_def]
  by (simp add: GyroDetector_find_def demo_findArmors demo_eraseErrorArmors upt_conv_Cons Let_def)

theorem findArmors_containment_prune_witness:
  "std_sort_contract (demo_ext [140, 100, 120]) [140, 100, 120]
   \<and> make_combo (demo_ext [140, 100, 120]) 100 140
       = Some \<lparr>at0 = 100, at1 = 140, getWidth = 40, getError = 0, getType = ()\<rparr>
   \<and> isContainBlob (demo_ext [140, 100, 120]) 120
       \<lparr>at0 = 100, at1 = 140, getWidth = 40, getError = 0, getType = ()\<rparr>
   \<and> list_all (\<lambda>a. \<not> (at0 a = 100 \<and> at1 a = 140))
       (snd (findArmors (demo_ext [140, 100, 120]) [140, 100, 120]))
   \<and> snd (findArmors (demo_ext [140, 100, 120]) [140, 100, 120])
       = [\<lparr>at0 = 100, at1 = 120, getWidth = 20, getError = 0, getType = ()\<rparr>,
          \<lparr>at0 = 120, at1 = 140, getWidth = 20, getError = 0, getType = ()\<rparr>]
   \<and> surviving_blobs (demo_ext [140, 100, 120]) (dark 100 200) = [140, 100, 120]
   \<and> snd (GyroDetector_find (demo_ext [140, 100, 120]) (dark 100 200) [] [])
       = [\<lparr>at0 = 100, at1 = 120, getWidth = 20, getError = 0, getType = ()\<rparr>]"
proof -
  let ?E = "demo_ext [140, 100, 120]"
  have sort: "std_sort_contract ?E [140, 100, 120]"
    by (simp add: std_sort_contract_def demo_ext_def center_x_def)
  have refs: "\<And>l r a. center_x ?E l \<le> center_x ?E r
      \<Longrightarrow> make_combo ?E l r = Some a \<Longrightarrow> at0 a = l \<and> at1 a = r"
    by (auto simp: demo_ext_def)
  have mem: "(120::nat) \<in> set [140, 100, 120]" by simp
  have ord: "center_x ?E 100 < center_x ?E 120" "center_x ?E 120 < center_x ?E 140"
    by (simp_all add: demo_ext_def center_x_def)
  have ac: "make_combo ?E 100 140
       = Some \<lparr>at0 = 100, at1 = 140, getWidth = 40, getError = 0, getType = ()\<rparr>"
    by (simp add: demo_ext_def)
  have inside: "isContainBlob ?E 120
       \<lparr>at0 = 100, at1 = 140, getWidth = 40, getError = 0, getType = ()\<rparr>"
    by (simp add: demo_ext_def)
  from findArmors_containment_prune [OF sort refs mem ord ac inside,
      of "dark 100 200" "[]" "[]"] sort ac inside
  show ?thesis
    by (simp add: demo_findArmors demo_surviving_blobs demo_find)
qed

section \<open>The samples of the brightness filter\<close>

text \<open>
  With at least two columns, a sampled column lies between \<open>0\<close> and the number of columns,
  and it lies inside the image unless the column computed from the light blob is exactly
  the number of columns, which the first comparison of the clamp lets through.
\<close>

lemma sample_x_range:
  assumes "2 \<le> cols src"
  shows "0 \<le> sample_x src b i \<and> sample_x src b i \<le> cols src"
  using assms by (simp add: sample_x_def Let_def)

lemma sample_x_inside_iff:
  assumes "2 \<le> cols src"
  shows "sample_x src b i \<le> cols src - 1
     \<longleftrightarrow> trunc (fst (blob_center b) - blob_height b * real_of_int i / 5) \<noteq> cols src"
  using assms by (auto simp: sample_x_def Let_def)

text \<open>
  Claim C8 asks for every sampled column to lie between \<open>0\<close> and the number of columns
  minus one. In an image of 100 columns, the light blob with centre \<open>(90, 50)\<close> and height
  \<open>10\<close> has its sample for \<open>i = -5\<close> at column \<open>90 + 10 = 100\<close>, which is not greater than
  the number of columns and is therefore left as it is: one column past the last.
\<close>

theorem sample_x_reaches_cols:
  "sample_x (dark 100 100) \<lparr>blob_center = (90, 50), blob_height = 10\<rparr> (- 5) = 100
   \<and> cols (dark 100 100) = 100
   \<and> - 5 \<in> set [- 5..5::int]"
  by (simp add: sample_x_def dark_def trunc_def)

section \<open>The vanish counter\<close>

lemma updateVanishStates_append:
  "updateVanishStates (xs @ ys) t = updateVanishStates ys (updateVanishStates xs t)"
  by (induction xs arbitrary: t) simp_all

lemma vanish_num_replicate_VANISH:
  "vanish_num (updateVanishStates (replicate N VANISH) t) = vanish_num t + of_nat N"
proof (induction N arbitrary: t)
  case 0
  show ?case by simp
next
  case (Suc N)
  have "vanish_num (updateVanishStates (replicate (Suc N) VANISH) t)
      = vanish_num (updateVanishState VANISH t) + of_nat N"
    using Suc.IH [of "updateVanishState VANISH t"] by simp
  also have "\<dots> = vanish_num t + of_nat (Suc N)"
    by (simp add: updateVanishState_def ac_simps)
  finally show ?case .
qed

text \<open>Read as a natural number, the counter after \<open>N\<close> misses is the sum modulo \<open>2 ^ w\<close>.\<close>

lemma unat_vanish_num_replicate_VANISH:
  fixes t :: "('w::len word, 'z) tracker_scheme"
  shows "unat (vanish_num (updateVanishStates (replicate N VANISH) t))
           = (unat (vanish_num t) + N) mod 2 ^ LENGTH('w)"
proof -
  have "unat (vanish_num t + of_nat N) = (unat (vanish_num t) + N mod 2 ^ LENGTH('w)) mod 2 ^ LENGTH('w)"
    by (simp add: unat_word_ariths unat_of_nat)
  also have "\<dots> = (unat (vanish_num t) + N) mod 2 ^ LENGTH('w)"
    by (simp add: mod_add_right_eq)
  finally show ?thesis by (simp add: vanish_num_replicate_VANISH)
qed

text \<open>
  Claim C4, as stated, fails at the largest value of the counter: one miss takes a 32-bit
  counter from 4294967295 to 0, not to 4294967296.
\<close>

theorem updateVanishState_wraps_at_max:
  "unat (vanish_num \<lparr>vanish_num = 4294967295 :: 32 word\<rparr>) = 4294967295
   \<and> unat (vanish_num (updateVanishStates (replicate 1 VANISH) \<lparr>vanish_num = 4294967295 :: 32 word\<rparr>)) = 0"
  by (simp add: updateVanishState_def)

text \<open>
  Claim C4, amended. After any earlier updates \<open>pre\<close>, \<open>N\<close> consecutive \<open>VANISH\<close> updates
  increase the counter by exactly \<open>N\<close> provided that the sum stays below \<open>2 ^ w\<close>, the
  number of values of the counter; in general they leave it at the sum modulo \<open>2 ^ w\<close>. One
  \<open>APPEAR\<close> update after them sets it to \<open>0\<close>; an \<open>APPEAR\<close> update sets it to \<open>0\<close> from
  any state; no update touches the rest of the tracker.
\<close>

theorem updateVanishState_counter:
  fixes t :: "('w::len word, 'z) tracker_scheme"
  shows "(unat (vanish_num (updateVanishStates pre t)) + N < 2 ^ LENGTH('w) \<longrightarrow>
            unat (vanish_num (updateVanishStates (pre @ replicate N VANISH) t))
              = unat (vanish_num (updateVanishStates pre t)) + N)
       \<and> unat (vanish_num (updateVanishStates (pre @ replicate N VANISH) t))
           = (unat (vanish_num (updateVanishStates pre t)) + N) mod 2 ^ LENGTH('w)
       \<and> vanish_num (updateVanishStates (pre @ replicate N VANISH @ [APPEAR]) t) = 0
       \<and> vanish_num (updateVanishState APPEAR t) = 0
       \<and> tracker.more (updateVanishState s t) = tracker.more t"
proof -
  let ?t' = "updateVanishStates pre t"
  have wrap: "unat (vanish_num (updateVanishStates (pre @ replicate N VANISH) t))
      = (unat (vanish_num ?t') + N) mod 2 ^ LENGTH('w)"
    by (simp add: updateVanishStates_append unat_vanish_num_replicate_VANISH)
  then have exact: "unat (vanish_num (updateVanishStates (pre @ replicate N VANISH) t))
      = unat (vanish_num ?t') + N" if "unat (vanish_num ?t') + N < 2 ^ LENGTH('w)"
    using that by simp
  have seen: "vanish_num (updateVanishState APPEAR u) = 0" for u :: "('w word, 'z) tracker_scheme"
    by (simp add: updateVanishState_def)
  have "updateVanishStates (pre @ replicate N VANISH @ [APPEAR]) t
      = updateVanishState APPEAR (updateVanishStates (replicate N VANISH) ?t')"
    by (simp add: updateVanishStates_append)
  then have reset: "vanish_num (updateVanishStates (pre @ replicate N VANISH @ [APPEAR]) t) = 0"
    by (simp only: seen)
  have frame: "tracker.more (updateVanishState s t) = tracker.more t"
    by (simp add: updateVanishState_def)
  from wrap exact reset seen [of t] frame show ?thesis by blast
qed

text \<open>
  Three misses after an observation and a miss, in a 32-bit counter that started at 4, then
  an observation.
\<close>

theorem updateVanishState_counter_witness:
  "unat (vanish_num (updateVanishStates [APPEAR, VANISH] \<lparr>vanish_num = 4 :: 32 word\<rparr>)) + 3 < 2 ^ 32
   \<and> unat (vanish_num (updateVanishStates ([APPEAR, VANISH] @ replicate 3 VANISH)
        \<lparr>vanish_num = 4 :: 32 word\<rparr>)) = 4
   \<and> vanish_num (updateVanishStates ([APPEAR, VANISH] @ replicate 3 VANISH @ [APPEAR])
        \<lparr>vanish_num = 4 :: 32 word\<rparr>) = 0"
proof -
  have pre: "unat (vanish_num (updateVanishStates [APPEAR, VANISH] \<lparr>vanish_num = 4 :: 32 word\<rparr>)) = 1"
    by (simp add: updateVanishState_def)
  then have small: "unat (vanish_num (updateVanishStates [APPEAR, VANISH] \<lparr>vanish_num = 4 :: 32 word\<rparr>)) + 3
      < 2 ^ LENGTH(32)"
    by simp
  from updateVanishState_counter [of "[APPEAR, VANISH]" "\<lparr>vanish_num = 4 :: 32 word\<rparr>" 3] small pre
  show ?thesis by simp
qed

section \<open>Angle unwrapping\<close>











section \<open>Cloning a combo\<close>

text \<open>
  The loop from index \<open>i\<close> on clones the remaining \<open>k\<close> features into the next \<open>k\<close>
  addresses; the function in closed form.
\<close>

lemma clone_loop_run:
  assumes "k = length (c_features c) - i"
    and "this \<noteq> retval"
    and "combo_at h this = Some c"
    and "combo_at h retval = Some r"
    and "length (c_features r) = length (c_features c)"
    and "set (c_features c) \<subseteq> dom (feature_at h)"
    and "\<forall>a \<in> dom (feature_at h). a < next_free h"
    and "i \<le> length (c_features c)"
  shows "clone_loop this retval i h =
     Some (h\<lparr>feature_at := (\<lambda>a. if next_free h \<le> a \<and> a < next_free h + k
                                 then feature_at h (c_features c ! (i + (a - next_free h)))
                                 else feature_at h a),
              combo_at := (combo_at h)(retval \<mapsto>
                  r\<lparr>c_features := take i (c_features r) @ [next_free h ..< next_free h + k]\<rparr>),
              next_free := next_free h + k\<rparr>)"
  using assms
proof (induction k arbitrary: i h r)
  case 0
  then have i: "i = length (c_features c)" by simp
  have run: "clone_loop this retval i h = Some h"
    using 0(3) i by (subst clone_loop.simps) simp
  have "(\<lambda>a. if next_free h \<le> a \<and> a < next_free h + 0
                                 then feature_at h (c_features c ! (i + (a - next_free h)))
                                 else feature_at h a) = feature_at h"
    by (rule ext) auto
  moreover have "(combo_at h)(retval \<mapsto>
                  r\<lparr>c_features := take i (c_features r) @ [next_free h ..< next_free h + 0]\<rparr>)
      = combo_at h"
    using 0(4,5) i by (simp add: map_upd_triv)
  ultimately show ?case
    unfolding run by simp
next
  case (Suc k)
  let ?n = "length (c_features c)"
  let ?nf = "next_free h"
  from Suc.prems have i: "i < ?n" by simp
  with Suc.prems have "c_features c ! i \<in> dom (feature_at h)" by (auto simp: subset_eq)
  then obtain f where f: "feature_at h (c_features c ! i) = Some f" by blast
  define h1 where "h1 = h\<lparr>feature_at := (feature_at h)(?nf \<mapsto> f), next_free := ?nf + 1\<rparr>"
  define r2 where "r2 = r\<lparr>c_features := (c_features r)[i := ?nf]\<rparr>"
  define h2 where "h2 = h1\<lparr>combo_at := (combo_at h1)(retval \<mapsto> r2)\<rparr>"
  have fc: "feature_clone (c_features c ! i) h = Some (?nf, h1)"
    using f by (simp add: feature_clone_def h1_def)
  have step: "clone_loop this retval i h = clone_loop this retval (i + 1) h2"
    using Suc.prems i fc
    by (simp add: clone_loop.simps [of this retval i h] h1_def h2_def r2_def)
  have old: "a < ?nf" if "a \<in> set (c_features c)" for a
    using that Suc.prems by (auto simp: subset_eq)
  have IH: "clone_loop this retval (i + 1) h2 =
     Some (h2\<lparr>feature_at := (\<lambda>a. if next_free h2 \<le> a \<and> a < next_free h2 + k
                                 then feature_at h2 (c_features c ! (i + 1 + (a - next_free h2)))
                                 else feature_at h2 a),
              combo_at := (combo_at h2)(retval \<mapsto>
                  r2\<lparr>c_features := take (i + 1) (c_features r2) @ [next_free h2 ..< next_free h2 + k]\<rparr>),
              next_free := next_free h2 + k\<rparr>)"
  proof (rule Suc.IH)
    show "k = ?n - (i + 1)" using Suc.prems by simp
    show "this \<noteq> retval" by fact
    show "combo_at h2 this = Some c" using Suc.prems by (simp add: h2_def h1_def)
    show "combo_at h2 retval = Some r2" by (simp add: h2_def)
    show "length (c_features r2) = ?n" using Suc.prems by (simp add: r2_def)
    show "set (c_features c) \<subseteq> dom (feature_at h2)"
      using Suc.prems by (auto simp: h2_def h1_def)
    show "\<forall>a \<in> dom (feature_at h2). a < next_free h2"
    proof
      fix a assume "a \<in> dom (feature_at h2)"
      then have "a = ?nf \<or> a \<in> dom (feature_at h)"
        by (auto simp: h2_def h1_def split: if_splits)
      moreover have "a < ?nf" if "a \<in> dom (feature_at h)"
        using that Suc.prems(7) by blast
      ultimately have "a = ?nf \<or> a < ?nf" by blast
      then show "a < next_free h2"
        by (auto simp: h2_def h1_def)
    qed
    show "i + 1 \<le> ?n" using i by simp
  qed
  have nf2: "next_free h2 = ?nf + 1" by (simp add: h2_def h1_def)
  have feats: "(\<lambda>a. if next_free h2 \<le> a \<and> a < next_free h2 + k
                                 then feature_at h2 (c_features c ! (i + 1 + (a - next_free h2)))
                                 else feature_at h2 a)
      = (\<lambda>a. if ?nf \<le> a \<and> a < ?nf + Suc k
                                 then feature_at h (c_features c ! (i + (a - ?nf)))
                                 else feature_at h a)"
  proof (rule ext)
    fix a
    have h2f: "feature_at h2 = (feature_at h)(?nf \<mapsto> f)"
      by (simp add: h2_def h1_def)
    consider (new) "a = ?nf" | (later) "?nf + 1 \<le> a" "a < ?nf + 1 + k"
      | (other) "a < ?nf \<or> ?nf + 1 + k \<le> a"
      by linarith
    then show "(if next_free h2 \<le> a \<and> a < next_free h2 + k
                                 then feature_at h2 (c_features c ! (i + 1 + (a - next_free h2)))
                                 else feature_at h2 a)
      = (if ?nf \<le> a \<and> a < ?nf + Suc k
                                 then feature_at h (c_features c ! (i + (a - ?nf)))
                                 else feature_at h a)"
    proof cases
      case new
      have c1: "\<not> (next_free h2 \<le> a \<and> a < next_free h2 + k)" using new nf2 by simp
      have c2: "?nf \<le> a \<and> a < ?nf + Suc k" using new by simp
      show ?thesis
        unfolding if_not_P [OF c1] if_P [OF c2] using new f by (simp add: h2f)
    next
      case later
      have c1: "next_free h2 \<le> a \<and> a < next_free h2 + k" using later nf2 by simp
      have c2: "?nf \<le> a \<and> a < ?nf + Suc k" using later by simp
      have idx: "i + 1 + (a - next_free h2) = i + (a - ?nf)" using later nf2 by linarith
      from later Suc.prems(1) have "i + (a - ?nf) < ?n" by linarith
      then have "c_features c ! (i + (a - ?nf)) \<in> set (c_features c)" by simp
      from old [OF this] have "c_features c ! (i + (a - ?nf)) \<noteq> ?nf" by simp
      then show ?thesis
        unfolding if_P [OF c1] if_P [OF c2] idx by (simp add: h2f)
    next
      case other
      have c1: "\<not> (next_free h2 \<le> a \<and> a < next_free h2 + k)" using other nf2 by linarith
      have c2: "\<not> (?nf \<le> a \<and> a < ?nf + Suc k)" using other by linarith
      have "a \<noteq> ?nf" using other by linarith
      then show ?thesis
        unfolding if_not_P [OF c1] if_not_P [OF c2] by (simp add: h2f)
    qed
  qed
  have "i < length (c_features r)" using i Suc.prems by simp
  then have "take (i + 1) (c_features r2) = take i (c_features r) @ [?nf]"
    by (simp add: r2_def take_Suc_conv_app_nth)
  moreover have "[?nf ..< ?nf + Suc k] = ?nf # [?nf + 1 ..< ?nf + 1 + k]"
    by (simp add: upt_conv_Cons)
  ultimately have fl: "take (i + 1) (c_features r2) @ [next_free h2 ..< next_free h2 + k]
      = take i (c_features r) @ [?nf ..< ?nf + Suc k]"
    by (simp add: nf2)
  have final: "h2\<lparr>feature_at := F, combo_at := (combo_at h2)(retval \<mapsto> X),
                  next_free := next_free h2 + k\<rparr>
      = h\<lparr>feature_at := F, combo_at := (combo_at h)(retval \<mapsto> X), next_free := ?nf + Suc k\<rparr>" for F X
    by (simp add: h2_def h1_def)
  have "r2\<lparr>c_features := ys\<rparr> = r\<lparr>c_features := ys\<rparr>" for ys
    by (simp add: r2_def)
  then show ?case
    unfolding step IH feats fl final by (simp add: fun_upd_def)
qed

lemma clone_closed_form:
  assumes ok: "heap_ok h" and self: "combo_at h this = Some c"
    and fs: "set (c_features c) \<subseteq> dom (feature_at h)"
  shows "clone this tick h =
     Some (next_free h,
           h\<lparr>feature_at := (\<lambda>a. if next_free h + 1 \<le> a \<and> a < next_free h + 1 + length (c_features c)
                                 then feature_at h (c_features c ! (a - (next_free h + 1)))
                                 else feature_at h a),
             combo_at := (combo_at h)(next_free h \<mapsto>
                 c\<lparr>c_features := [next_free h + 1 ..< next_free h + 1 + length (c_features c)],
                   c_tick := tick\<rparr>),
             next_free := next_free h + 1 + length (c_features c)\<rparr>)"
proof -
  let ?nf = "next_free h"
  let ?n = "length (c_features c)"
  define h0 where "h0 = h\<lparr>combo_at := (combo_at h)(?nf \<mapsto> c), next_free := ?nf + 1\<rparr>"
  have ms: "make_shared_combo c h = (?nf, h0)"
    by (simp add: make_shared_combo_def h0_def)
  from ok self have "this < ?nf" by (auto simp: heap_ok_def)
  then have ne: "this \<noteq> ?nf" by simp
  have fresh: "\<forall>a \<in> dom (feature_at h0). a < next_free h0"
  proof
    fix a assume "a \<in> dom (feature_at h0)"
    then have "a \<in> dom (feature_at h)" by (simp add: h0_def)
    with ok have "a < ?nf" by (simp add: heap_ok_def)
    then show "a < next_free h0" by (simp add: h0_def)
  qed
  have loop: "clone_loop this ?nf 0 h0 =
     Some (h0\<lparr>feature_at := (\<lambda>a. if next_free h0 \<le> a \<and> a < next_free h0 + ?n
                                 then feature_at h0 (c_features c ! (0 + (a - next_free h0)))
                                 else feature_at h0 a),
              combo_at := (combo_at h0)(?nf \<mapsto>
                  c\<lparr>c_features := take 0 (c_features c) @ [next_free h0 ..< next_free h0 + ?n]\<rparr>),
              next_free := next_free h0 + ?n\<rparr>)"
  proof (rule clone_loop_run)
    show "?n = ?n - 0" by simp
    show "this \<noteq> ?nf" by (rule ne)
    show "combo_at h0 this = Some c" using self ne by (simp add: h0_def)
    show "combo_at h0 ?nf = Some c" by (simp add: h0_def)
    show "length (c_features c) = ?n" by simp
    show "set (c_features c) \<subseteq> dom (feature_at h0)" using fs by (simp add: h0_def)
    show "\<forall>a \<in> dom (feature_at h0). a < next_free h0" by (rule fresh)
    show "0 \<le> ?n" by simp
  qed
  define X where "X = c\<lparr>c_features := take 0 (c_features c) @ [next_free h0 ..< next_free h0 + ?n]\<rparr>"
  define H where "H = h0\<lparr>feature_at := (\<lambda>a. if next_free h0 \<le> a \<and> a < next_free h0 + ?n
                                 then feature_at h0 (c_features c ! (0 + (a - next_free h0)))
                                 else feature_at h0 a),
              combo_at := (combo_at h0)(?nf \<mapsto> X),
              next_free := next_free h0 + ?n\<rparr>"
  have Hc: "combo_at H ?nf = Some X" by (simp add: H_def)
  have "clone this tick h = Some (?nf, H\<lparr>combo_at := (combo_at H)(?nf \<mapsto> X\<lparr>c_tick := tick\<rparr>)\<rparr>)"
    unfolding clone_def self option.case ms Let_def prod.case loop [folded X_def, folded H_def]
    using Hc by simp
  also have "H\<lparr>combo_at := (combo_at H)(?nf \<mapsto> X\<lparr>c_tick := tick\<rparr>)\<rparr>
      = h\<lparr>feature_at := (\<lambda>a. if ?nf + 1 \<le> a \<and> a < ?nf + 1 + ?n
                                 then feature_at h (c_features c ! (a - (?nf + 1)))
                                 else feature_at h a),
             combo_at := (combo_at h)(?nf \<mapsto>
                 c\<lparr>c_features := [?nf + 1 ..< ?nf + 1 + ?n], c_tick := tick\<rparr>),
             next_free := ?nf + 1 + ?n\<rparr>"
    by (simp add: H_def X_def h0_def del: upt_Suc cong: if_cong)
  finally show ?thesis .
qed

text \<open>
  Claim C6. In a well-formed heap, let \<open>this\<close> point to the combo \<open>c\<close>, whose feature
  pointers all point to features. Then \<^verbatim>\<open>clone\<close> returns a pointer to a new combo \<open>c'\<close>
  with as many features as \<open>c\<close>; each feature pointer of \<open>c'\<close> is a new address, holding a
  feature equal to the one at the same index of \<open>c\<close>; the two combos share no feature
  pointer, and the feature pointers of \<open>c'\<close> are pairwise distinct; the tick of \<open>c'\<close> is
  the given one; apart from the feature pointers and the tick, \<open>c'\<close> equals \<open>c\<close>; and every
  combo and every feature of the heap before the call, the original among them, is
  unchanged.
\<close>

theorem clone_deep_copy:
  assumes ok: "heap_ok h" and self: "combo_at h this = Some c"
    and fs: "set (c_features c) \<subseteq> dom (feature_at h)"
  shows "\<exists>retval h' c'.
           clone this tick h = Some (retval, h') \<and> combo_at h' retval = Some c'
         \<and> retval \<notin> dom (combo_at h)
         \<and> length (c_features c') = length (c_features c)
         \<and> (\<forall>i < length (c_features c).
               c_features c' ! i \<notin> dom (feature_at h)
             \<and> feature_at h' (c_features c' ! i) = feature_at h (c_features c ! i))
         \<and> set (c_features c') \<inter> set (c_features c) = {}
         \<and> distinct (c_features c')
         \<and> c_tick c' = tick
         \<and> c'\<lparr>c_features := c_features c, c_tick := c_tick c\<rparr> = c
         \<and> (\<forall>a \<in> dom (combo_at h). combo_at h' a = combo_at h a)
         \<and> (\<forall>a \<in> dom (feature_at h). feature_at h' a = feature_at h a)"
proof -
  let ?nf = "next_free h"
  let ?n = "length (c_features c)"
  define c' where "c' = c\<lparr>c_features := [?nf + 1 ..< ?nf + 1 + ?n], c_tick := tick\<rparr>"
  define h' where "h' = h\<lparr>feature_at := (\<lambda>a. if ?nf + 1 \<le> a \<and> a < ?nf + 1 + ?n
                                 then feature_at h (c_features c ! (a - (?nf + 1)))
                                 else feature_at h a),
             combo_at := (combo_at h)(?nf \<mapsto> c'),
             next_free := ?nf + 1 + ?n\<rparr>"
  have oldf: "a < ?nf" if "a \<in> dom (feature_at h)" for a
    using that ok by (simp add: heap_ok_def)
  have oldc: "a < ?nf" if "a \<in> dom (combo_at h)" for a
    using that ok by (simp add: heap_ok_def)
  have 1: "clone this tick h = Some (?nf, h')"
    unfolding h'_def c'_def by (rule clone_closed_form [OF ok self fs])
  have 2: "combo_at h' ?nf = Some c'" by (simp add: h'_def)
  have 3: "?nf \<notin> dom (combo_at h)" using oldc by blast
  have 4: "length (c_features c') = ?n" by (simp add: c'_def del: upt_Suc)
  have 5: "c_features c' ! i \<notin> dom (feature_at h)
         \<and> feature_at h' (c_features c' ! i) = feature_at h (c_features c ! i)" if "i < ?n" for i
  proof -
    from that have nth: "c_features c' ! i = ?nf + 1 + i" by (simp add: c'_def del: upt_Suc)
    have "?nf + 1 + i \<notin> dom (feature_at h)" using oldf [of "?nf + 1 + i"] by auto
    moreover have "feature_at h' (?nf + 1 + i) = feature_at h (c_features c ! i)"
      using that by (simp add: h'_def)
    ultimately show ?thesis by (simp add: nth)
  qed
  have 6: "set (c_features c') \<inter> set (c_features c) = {}"
  proof -
    have "a < ?nf" if "a \<in> set (c_features c)" for a
      using that fs oldf by blast
    moreover have "?nf < a" if "a \<in> set (c_features c')" for a
      using that by (simp add: c'_def del: upt_Suc)
    ultimately show ?thesis by fastforce
  qed
  have 7: "distinct (c_features c')" by (simp add: c'_def del: upt_Suc)
  have 8: "c_tick c' = tick" by (simp add: c'_def)
  have 9: "c'\<lparr>c_features := c_features c, c_tick := c_tick c\<rparr> = c" by (simp add: c'_def)
  have 10: "combo_at h' a = combo_at h a" if "a \<in> dom (combo_at h)" for a
    using oldc [OF that] by (simp add: h'_def)
  have 11: "feature_at h' a = feature_at h a" if "a \<in> dom (feature_at h)" for a
    using oldf [OF that] by (simp add: h'_def)
  from 1 2 3 4 5 6 7 8 9 10 11 show ?thesis by blast
qed

theorem clone_deep_copy_witness:
  "heap_ok demo_heap
   \<and> (\<exists>h'. clone 2 10 demo_heap = Some (3, h')
          \<and> combo_at h' 3 = Some \<lparr>c_features = [4, 5], c_height = 3, c_width = 4, c_center = (5, 6),
                                    c_angle = 7, c_corners = [(0, 0), (1, 1)], c_type = 8, c_tick = 10\<rparr>
          \<and> combo_at h' 2 = combo_at demo_heap 2
          \<and> feature_at h' 0 = Some ''left'' \<and> feature_at h' 1 = Some ''right''
          \<and> feature_at h' 4 = Some ''left'' \<and> feature_at h' 5 = Some ''right'')"
proof -
  have ok: "heap_ok demo_heap"
    by (simp add: heap_ok_def demo_heap_def)
  have self: "combo_at demo_heap 2
      = Some \<lparr>c_features = [0, 1], c_height = 3, c_width = 4, c_center = (5, 6),
              c_angle = 7, c_corners = [(0, 0), (1, 1)], c_type = 8, c_tick = 9\<rparr>"
    by (simp add: demo_heap_def)
  have fs: "set (c_features \<lparr>c_features = [0, 1], c_height = 3, c_width = 4, c_center = (5, 6),
              c_angle = 7, c_corners = [(0, 0), (1, 1)], c_type = 8 :: nat, c_tick = 9\<rparr>)
      \<subseteq> dom (feature_at demo_heap)"
    by (simp add: demo_heap_def)
  have run: "\<exists>h'. clone 2 10 demo_heap = Some (3, h')
          \<and> combo_at h' 3 = Some \<lparr>c_features = [4, 5], c_height = 3, c_width = 4, c_center = (5, 6),
                                    c_angle = 7, c_corners = [(0, 0), (1, 1)], c_type = 8, c_tick = 10\<rparr>
          \<and> combo_at h' 2 = combo_at demo_heap 2
          \<and> feature_at h' 0 = Some ''left'' \<and> feature_at h' 1 = Some ''right''
          \<and> feature_at h' 4 = Some ''left'' \<and> feature_at h' 5 = Some ''right''"
    by (simp add: clone_def demo_heap_def make_shared_combo_def clone_loop.simps feature_clone_def)
  from clone_deep_copy [OF ok self fs, of 10] ok run show ?thesis by simp
qed

section \<open>Constructing a tag\<close>

text \<open>An array of corners has four elements, so the constructor returns a tag.\<close>

lemma length_elements: "length (elements corners) = 4"
  by (cases corners) (simp add: elements_def)

lemma Tag_ctor_Inr:
  "\<exists>t. Tag_ctor narrow getDistance corners type = Inr t
       \<and> tag_corners t = elements corners \<and> tag_type t = type"
  by (simp add: Tag_ctor_def Let_def length_elements)




text \<open>The width and the height of a constructed tag, as the two assignments compute them.\<close>

lemma Tag_ctor_fields:
  assumes "Tag_ctor narrow getDistance corners type = Inr t"
  shows "tag_width t =
           narrow (if getDistance (elements corners ! 0) (elements corners ! 1)
                      > getDistance (elements corners ! 1) (elements corners ! 2)
                   then getDistance (elements corners ! 0) (elements corners ! 1)
                   else getDistance (elements corners ! 1) (elements corners ! 2))"
    and "tag_height t =
           narrow (if tag_width t = getDistance (elements corners ! 0) (elements corners ! 1)
                   then getDistance (elements corners ! 1) (elements corners ! 2)
                   else getDistance (elements corners ! 0) (elements corners ! 1))"
  using assms by (auto simp: Tag_ctor_def Let_def length_elements)

text \<open>
  The \<^verbatim>\<open>float\<close> nearest to \<open>sqrt 2\<close> is \<open>11863283 / 2 ^ 23\<close>, about 1.41421354, and differs
  from \<open>sqrt 2\<close>; the number \<open>1\<close> is a \<^verbatim>\<open>float\<close>.
\<close>

lemma powr_minus_23: "2 powr real_of_int (0 - 23) = (1 / 8388608 :: real)"
proof -
  have "2 powr real_of_int (0 - 23) = (2::real) powr (- real (23::nat))" by simp
  also have "\<dots> = 1 / 2 ^ 23" by (simp only: powr_minus powr_realpow) (simp add: field_simps)
  finally show ?thesis by simp
qed

lemma float32_1: "float32 1 = 1"
proof -
  have "float32 1 = real_of_int (round (1 / 2 powr real_of_int (0 - 23))) * 2 powr real_of_int (0 - 23)"
    unfolding float32_def Let_def by simp
  also have "\<dots> = 1"
    unfolding powr_minus_23 by simp
  finally show ?thesis .
qed

lemma sqrt2_bounds: "11863282.5 / 8388608 \<le> sqrt 2" "sqrt 2 < 11863283.5 / 8388608"
proof -
  have "(11863282.5 / 8388608)\<^sup>2 \<le> (2::real)" by (simp add: power2_eq_square)
  then show "11863282.5 / 8388608 \<le> sqrt 2"
    by (rule real_le_rsqrt)
  have "(2::real) < (11863283.5 / 8388608)\<^sup>2" by (simp add: power2_eq_square)
  then show "sqrt 2 < 11863283.5 / 8388608"
    by (intro real_less_lsqrt) simp_all
qed

lemma log2_sqrt2: "\<lfloor>log 2 \<bar>sqrt 2\<bar>\<rfloor> = 0"
proof -
  have "(1::real) \<le> sqrt 2" "sqrt 2 < 2"
    using sqrt2_bounds by simp_all
  then have "0 \<le> log 2 (sqrt 2)" "log 2 (sqrt 2) < 1"
    by (simp_all add: log_less_iff)
  then have "\<lfloor>log 2 (sqrt 2)\<rfloor> = 0" by (intro floor_unique) simp_all
  then show ?thesis by simp
qed

lemma round_sqrt2: "round (sqrt 2 * 8388608) = 11863283"
  unfolding round_def
proof (rule floor_unique)
  show "real_of_int 11863283 \<le> sqrt 2 * 8388608 + 1 / 2"
    using sqrt2_bounds(1) by (simp add: field_simps)
  show "sqrt 2 * 8388608 + 1 / 2 < real_of_int 11863283 + 1"
    using sqrt2_bounds(2) by (simp add: field_simps)
qed

lemma float32_sqrt2: "float32 (sqrt 2) = 11863283 / 8388608"
proof -
  have "float32 (sqrt 2)
      = real_of_int (round (sqrt 2 / 2 powr real_of_int (0 - 23))) * 2 powr real_of_int (0 - 23)"
    unfolding float32_def Let_def log2_sqrt2 by simp
  also have "\<dots> = real_of_int (round (sqrt 2 * 8388608)) * (1 / 8388608)"
    unfolding powr_minus_23 by simp
  also have "\<dots> = 11863283 / 8388608"
    unfolding round_sqrt2 by simp
  finally show ?thesis .
qed

lemma float32_sqrt2_differs: "float32 (sqrt 2) \<noteq> sqrt 2"
proof
  assume "float32 (sqrt 2) = sqrt 2"
  then have "(11863283 / 8388608 :: real) = sqrt 2" by (simp only: float32_sqrt2)
  then have "(11863283 / 8388608 :: real)\<^sup>2 = (sqrt 2)\<^sup>2" by (simp only:)
  then show False by (simp add: power2_eq_square)
qed

lemma euclid_slanted:
  "euclid (elements slanted ! 0) (elements slanted ! 1) = sqrt 2"
  "euclid (elements slanted ! 1) (elements slanted ! 2) = 1"
  by (simp_all add: euclid_def slanted_def elements_def)

text \<open>
  Claim C10 asks for the height to be the smaller of the two lengths. In the parallelogram
  with the corners \<open>(0, 0)\<close>, \<open>(1, 1)\<close>, \<open>(2, 1)\<close>, \<open>(1, 0)\<close> the first length is \<open>sqrt 2\<close>
  and the second is \<open>1\<close>. The width is the first length converted to \<^verbatim>\<open>float\<close>, which no
  longer equals the first length; the comparison \<^verbatim>\<open>_width == length1\<close> fails, and the
  height is set to the first length as well: width and height are both 1.41421354, the
  larger length.
\<close>

theorem Tag_ctor_height_is_larger_length:
  "euclid (elements slanted ! 0) (elements slanted ! 1) = sqrt 2
   \<and> euclid (elements slanted ! 1) (elements slanted ! 2) = 1
   \<and> 1 < sqrt 2
   \<and> (\<exists>t. Tag_ctor float32 euclid slanted (7::nat) = Inr t
          \<and> tag_width t = 11863283 / 8388608 \<and> tag_height t = 11863283 / 8388608)"
proof -
  obtain t where t: "Tag_ctor float32 euclid slanted (7::nat) = Inr t"
    using Tag_ctor_Inr [of float32 euclid slanted "7::nat"] by blast
  have gt: "(1::real) < sqrt 2" by simp
  have w: "tag_width t = float32 (sqrt 2)"
    using Tag_ctor_fields(1) [OF t] gt by (simp only: euclid_slanted if_True)
  have "tag_width t \<noteq> sqrt 2"
    unfolding w by (rule float32_sqrt2_differs)
  then have h: "tag_height t = float32 (sqrt 2)"
    using Tag_ctor_fields(2) [OF t] by (simp only: euclid_slanted if_False)
  from t w h gt show ?thesis
    by (simp only: float32_sqrt2 euclid_slanted) blast
qed

text \<open>
  Without the conversion the width is the larger and the height the smaller length. With
  it, whenever the first length is the larger one and is changed by the conversion, the
  height equals the width.
\<close>

lemma Tag_ctor_exact_width_height:
  assumes "Tag_ctor (\<lambda>x. x) getDistance corners type = Inr t"
  shows "tag_width t = max (getDistance (elements corners ! 0) (elements corners ! 1))
                           (getDistance (elements corners ! 1) (elements corners ! 2))
       \<and> tag_height t = min (getDistance (elements corners ! 0) (elements corners ! 1))
                            (getDistance (elements corners ! 1) (elements corners ! 2))
       \<and> tag_height t \<le> tag_width t"
  using assms by (auto simp: Tag_ctor_def Let_def length_elements split: if_splits)

lemma Tag_ctor_narrowed_height:
  assumes "Tag_ctor narrow getDistance corners type = Inr t"
    and "getDistance (elements corners ! 1) (elements corners ! 2)
           < getDistance (elements corners ! 0) (elements corners ! 1)"
    and "narrow (getDistance (elements corners ! 0) (elements corners ! 1))
           \<noteq> getDistance (elements corners ! 0) (elements corners ! 1)"
  shows "tag_height t = tag_width t"
  using assms by (auto simp: Tag_ctor_def Let_def length_elements split: if_splits)

end
